theory Spec2Isabelle
  imports Complex_Main
begin

section \<open>Data model\<close>

text \<open>
  Python exceptions are values.  Every \<^verbatim>\<open>raise\<close> of the source, and every
  exception that the interpreter or NumPy raises on a path of the source, is a branch
  that yields one of these.
\<close>

datatype warning = UserWarning string

datatype error =
    TypeError string
  | IndexError string
  | ValueError string
  | ZeroDivisionError string
  | Raised warning

type_synonym addr = nat

text \<open>
  Modelled from the spec: the class \<^verbatim>\<open>Individual\<close> (module \<^verbatim>\<open>peal.population\<close>, not
  part of the sources).  An individual is an ordered sequence of genes together with an
  ordered sequence of hidden genes (self-adaptive strategy parameters such as a mutation
  step size).  Both are arrays that the operators update in place, so individuals live in
  a store and are referred to by address.  The hidden genes are floats, values of a type
  \<open>'f\<close> that stands for the IEEE doubles.
\<close>

record ('g, 'f) individual =
  genes :: "'g list"
  hidden_genes :: "'f list"

text \<open>
  Modelled from the spec: the classes \<^verbatim>\<open>Population\<close> and \<^verbatim>\<open>Community\<close>.  A population
  is an ordered collection of individuals (references into the store), a community an
  ordered collection of populations.
\<close>

type_synonym population = "addr list"
type_synonym community = "population list"

text \<open>
  Modelled from the spec: the class \<^verbatim>\<open>IterationType\<close>.  An iteration type is a policy
  that, called on a container, yields a finite sequence of sub-containers (batches) of
  the same kind.
\<close>

record iteration_type =
  iter_population :: "population \<Rightarrow> population list"
  iter_community :: "community \<Rightarrow> community list"

text \<open>
  Modelled from the spec: \<^verbatim>\<open>SingleIteration\<close> yields one batch per individual of a
  population (a single-individual population), in the original order, and one batch per
  contained population of a community.
\<close>

definition SingleIteration :: iteration_type where
  "SingleIteration =
     \<lparr>iter_population = map (\<lambda>ind. [ind]), iter_community = map (\<lambda>pop. [pop])\<rparr>"

text \<open>
  The action that the filters of Python's \<^verbatim>\<open>warnings\<close> module select for a UserWarning.
  An interpreter started without options selects \<open>ActionDefault\<close>.
\<close>

datatype filter_action =
    ActionDefault
  | ActionError
  | ActionIgnore
  | ActionAlways
  | ActionModule
  | ActionOnce

text \<open>
  The process-wide state the code works on: the store of individuals, NumPy's global
  random stream, and the state of the \<^verbatim>\<open>warnings\<close> module: the filter action, the
  registry of operator.py (the texts and line numbers already dealt with), the registry
  of the action "once", and the warnings shown so far.  The random stream is the
  sequence of raw variates that the generator will deliver; a draw reads the head of the
  stream and advances it.
\<close>

record ('g, 'f) world =
  heap :: "('g, 'f) individual list"
  rng :: "nat \<Rightarrow> real"
  filter_action :: filter_action
  registry :: "(string \<times> nat) list"
  onceregistry :: "string list"
  warnings :: "warning list"

text \<open>The Python values that can be handed to the public entry points.\<close>

datatype pyobj =
    PopulationV population
  | CommunityV community
  | IterationTypeV iteration_type
  | NoneV
  | BoolV bool
  | IntV int
  | FloatV real
  | StrV string
  | ListV "pyobj list"

fun isinstance_Population :: "pyobj \<Rightarrow> bool" where
  "isinstance_Population (PopulationV p) = True"
| "isinstance_Population v = False"

fun isinstance_Community :: "pyobj \<Rightarrow> bool" where
  "isinstance_Community (CommunityV c) = True"
| "isinstance_Community v = False"

fun isinstance_IterationType :: "pyobj \<Rightarrow> bool" where
  "isinstance_IterationType (IterationTypeV t) = True"
| "isinstance_IterationType v = False"

text \<open>
  Modelled from the spec: \<^verbatim>\<open>Population.integrate\<close> and \<^verbatim>\<open>Community.integrate\<close> append
  the members of another container, preserving order.
\<close>

definition integrate :: "'a list \<Rightarrow> 'a list \<Rightarrow> 'a list" where
  "integrate container other = container @ other"

section \<open>Operators (operator.py)\<close>

text \<open>
  The operator classes of the sources, each with the attributes its constructor stores:
  \<^verbatim>\<open>_prob\<close>; \<^verbatim>\<open>_prob, _lowest, _highest\<close>; \<^verbatim>\<open>_prob, _mu, _sigma, _alpha\<close>.  The
  constructors compute nothing with these: they are recorded as the numbers given.
\<close>

datatype op_class =
    Operator
  | BitFlip real
  | UniformInt real int int
  | UniformFloat real real real
  | NormalDist real real real "real option"

fun class_name :: "op_class \<Rightarrow> string" where
  "class_name Operator = ''Operator''"
| "class_name (BitFlip prob) = ''BitFlip''"
| "class_name (UniformInt prob lowest highest) = ''UniformInt''"
| "class_name (UniformFloat prob lowest highest) = ''UniformFloat''"
| "class_name (NormalDist prob mu sigma alpha) = ''NormalDist''"

record operator =
  iter_type :: iteration_type
  cls :: op_class

definition Operator_init :: "iteration_type option \<Rightarrow> error + operator" where
  "Operator_init it =
     Inr \<lparr>iter_type = (case it of None \<Rightarrow> SingleIteration | Some t \<Rightarrow> t), cls = Operator\<rparr>"

text \<open>The setter of the property \<^verbatim>\<open>iter_type\<close>.\<close>

definition set_iter_type :: "operator \<Rightarrow> pyobj \<Rightarrow> error + operator" where
  "set_iter_type self v =
     (case v of
        IterationTypeV t \<Rightarrow> Inr (self\<lparr>iter_type := t\<rparr>)
      | _ \<Rightarrow> Inl (TypeError ''Expected IterationType''))"

text \<open>
  \<^verbatim>\<open>warnings.warn(text, category=UserWarning)\<close> called from line \<open>lineno\<close> of
  operator.py, as the standard library carries it out: a warning whose text and line are
  in the registry is dropped; otherwise the filter action decides whether it is dropped,
  raised as an exception, or shown, and whether it is entered in the registry.
\<close>

definition showwarning :: "string \<Rightarrow> ('g, 'f) world \<Rightarrow> ('g, 'f) world" where
  "showwarning text s = s\<lparr>warnings := warnings s @ [UserWarning text]\<rparr>"

definition warnings_warn ::
  "string \<Rightarrow> nat \<Rightarrow> ('g, 'f) world \<Rightarrow> (error + unit) \<times> ('g, 'f) world" where
  "warnings_warn text lineno s =
     (if (text, lineno) \<in> set (registry s) then (Inr (), s)
      else
        (case filter_action s of
           ActionIgnore \<Rightarrow> (Inr (), s)
         | ActionError \<Rightarrow> (Inl (Raised (UserWarning text)), s)
         | ActionOnce \<Rightarrow>
             (let s1 = s\<lparr>registry := (text, lineno) # registry s\<rparr> in
              if text \<in> set (onceregistry s1) then (Inr (), s1)
              else (Inr (), showwarning text (s1\<lparr>onceregistry := text # onceregistry s1\<rparr>)))
         | ActionAlways \<Rightarrow> (Inr (), showwarning text s)
         | ActionModule \<Rightarrow>
             (let s1 = s\<lparr>registry := (text, lineno) # registry s\<rparr> in
              if (text, 0) \<in> set (registry s1) then (Inr (), s1)
              else (Inr (), showwarning text (s1\<lparr>registry := (text, 0) # registry s1\<rparr>)))
         | ActionDefault \<Rightarrow>
             (Inr (), showwarning text (s\<lparr>registry := (text, lineno) # registry s\<rparr>))))"

definition no_operation_message :: "string \<Rightarrow> string \<Rightarrow> string" where
  "no_operation_message name kind =
     ''Operator '' @ name @ '' has been called on a'' @ kind @
     '' without specifying an operation for this type of container; it will not be processed''"

text \<open>The two pass-through hooks; their \<^verbatim>\<open>warnings.warn\<close> calls are at lines 103 and 117.\<close>

definition Operator_process_population ::
  "operator \<Rightarrow> population \<Rightarrow> ('g, 'f) world \<Rightarrow> (error + population) \<times> ('g, 'f) world" where
  "Operator_process_population self container s =
     (case warnings_warn (no_operation_message (class_name (cls self)) ''Population'') 103 s of
        (Inl e, s') \<Rightarrow> (Inl e, s')
      | (Inr u, s') \<Rightarrow> (Inr container, s'))"

definition Operator_process_community ::
  "operator \<Rightarrow> community \<Rightarrow> ('g, 'f) world \<Rightarrow> (error + community) \<times> ('g, 'f) world" where
  "Operator_process_community self container s =
     (case warnings_warn (no_operation_message (class_name (cls self)) ''Community'') 117 s of
        (Inl e, s') \<Rightarrow> (Inl e, s')
      | (Inr u, s') \<Rightarrow> (Inr container, s'))"

text \<open>
  The call \<^verbatim>\<open>self._process_population(batch, pool=pool)\<close> of \<^verbatim>\<open>Operator.process\<close>.  The
  base class declares the hook with the keyword-only parameter \<^verbatim>\<open>pool\<close>.  The four hooks
  that override it in mutation.py are declared as \<^verbatim>\<open>(self, container)\<close>, so the call is
  rejected by the interpreter before their body is entered.
\<close>

definition call_process_population_pool ::
  "operator \<Rightarrow> population \<Rightarrow> ('g, 'f) world \<Rightarrow> (error + population) \<times> ('g, 'f) world" where
  "call_process_population_pool self batch s =
     (case cls self of
        Operator \<Rightarrow> Operator_process_population self batch s
      | _ \<Rightarrow> (Inl (TypeError (class_name (cls self) @
            ''._process_population() got an unexpected keyword argument pool'')), s))"

text \<open>
  The call \<^verbatim>\<open>self._process_community(population_batch, pool=pool)\<close>.  No class of the
  sources overrides this hook.
\<close>

definition call_process_community_pool ::
  "operator \<Rightarrow> community \<Rightarrow> ('g, 'f) world \<Rightarrow> (error + community) \<times> ('g, 'f) world" where
  "call_process_community_pool self batch s = Operator_process_community self batch s"

text \<open>The two \<^verbatim>\<open>for\<close> loops of \<^verbatim>\<open>Operator.process\<close>, with the container built so far.\<close>

fun process_population_loop ::
  "operator \<Rightarrow> population list \<Rightarrow> population \<Rightarrow> ('g, 'f) world \<Rightarrow> (error + population) \<times> ('g, 'f) world"
  where
  "process_population_loop self [] population s = (Inr population, s)"
| "process_population_loop self (batch # batches) population s =
     (case call_process_population_pool self batch s of
        (Inl e, s') \<Rightarrow> (Inl e, s')
      | (Inr r, s') \<Rightarrow> process_population_loop self batches (integrate population r) s')"

fun process_community_loop ::
  "operator \<Rightarrow> community list \<Rightarrow> community \<Rightarrow> ('g, 'f) world \<Rightarrow> (error + community) \<times> ('g, 'f) world"
  where
  "process_community_loop self [] community s = (Inr community, s)"
| "process_community_loop self (batch # batches) community s =
     (case call_process_community_pool self batch s of
        (Inl e, s') \<Rightarrow> (Inl e, s')
      | (Inr r, s') \<Rightarrow> process_community_loop self batches (integrate community r) s')"

definition process :: "operator \<Rightarrow> pyobj \<Rightarrow> ('g, 'f) world \<Rightarrow> (error + pyobj) \<times> ('g, 'f) world" where
  "process self container s =
     (if isinstance_Population container then
        (case container of PopulationV p \<Rightarrow>
           (case process_population_loop self (iter_population (iter_type self) p) [] s of
              (Inl e, s') \<Rightarrow> (Inl e, s')
            | (Inr population, s') \<Rightarrow> (Inr (PopulationV population), s')))
      else if isinstance_Community container then
        (case container of CommunityV c \<Rightarrow>
           (case process_community_loop self (iter_community (iter_type self) c) [] s of
              (Inl e, s') \<Rightarrow> (Inl e, s')
            | (Inr community, s') \<Rightarrow> (Inr (CommunityV community), s')))
      else (Inl (TypeError ''Operator can only process populations or communities''), s))"

section \<open>NumPy's global random stream\<close>

text \<open>
  The library calls the sources make on \<^verbatim>\<open>np.random\<close>, with the exceptions NumPy raises
  on them.  A raw variate \<open>r\<close> of the stream is read as follows: \<^verbatim>\<open>random_sample\<close>
  delivers a float of the half-open interval [0.0, 1.0), here \<open>frac r\<close>; a bounded
  integer draw scales that fraction to the requested range.  The probability and the
  uniform samples, which the code only compares, are read as the real numbers they
  denote.
\<close>

definition advance :: "nat \<Rightarrow> ('g, 'f) world \<Rightarrow> ('g, 'f) world" where
  "advance n s = s\<lparr>rng := (\<lambda>k. rng s (n + k))\<rparr>"

definition random_sample :: "('g, 'f) world \<Rightarrow> real \<times> ('g, 'f) world" where
  "random_sample s = (frac (rng s 0), advance 1 s)"

definition random_sample_n :: "nat \<Rightarrow> ('g, 'f) world \<Rightarrow> real list \<times> ('g, 'f) world" where
  "random_sample_n n s = (map (\<lambda>i. frac (rng s i)) [0..<n], advance n s)"

definition int64_min :: int where
  "int64_min = - (2 ^ 63)"

definition int64_max :: int where
  "int64_max = 2 ^ 63 - 1"

definition draw_int :: "int \<Rightarrow> int \<Rightarrow> real \<Rightarrow> int" where
  "draw_int low high r = low + \<lfloor>frac r * of_int (high - low)\<rfloor>"

text \<open>\<^verbatim>\<open>np.random.randint(low, high, size=size)\<close>: integers of [low, high).\<close>

definition randint :: "int \<Rightarrow> int \<Rightarrow> nat \<Rightarrow> ('g, 'f) world \<Rightarrow> (error + int list) \<times> ('g, 'f) world" where
  "randint low high n s =
     (if n = 0 then (Inr [], s)
      else if low < int64_min then (Inl (ValueError ''low is out of bounds for int64''), s)
      else if int64_max < high - 1 then (Inl (ValueError ''high is out of bounds for int64''), s)
      else if high - 1 < low then (Inl (ValueError ''low >= high''), s)
      else (Inr (map (\<lambda>i. draw_int low high (rng s i)) [0..<n]), advance n s))"

text \<open>\<^verbatim>\<open>np.random.randint(high)\<close>: one integer of [0, high).\<close>

definition randint_below :: "int \<Rightarrow> ('g, 'f) world \<Rightarrow> (error + int) \<times> ('g, 'f) world" where
  "randint_below high s =
     (if int64_max < high - 1 then (Inl (ValueError ''high is out of bounds for int64''), s)
      else if high - 1 < 0 then (Inl (ValueError ''high <= 0''), s)
      else (Inr (draw_int 0 high (rng s 0)), advance 1 s))"

text \<open>\<^verbatim>\<open>np.random.choice(a)\<close> on a list: one element at a uniformly drawn index.\<close>

definition choice :: "'a list \<Rightarrow> ('g, 'f) world \<Rightarrow> (error + 'a) \<times> ('g, 'f) world" where
  "choice a s =
     (if a = [] then (Inl (ValueError ''a cannot be empty unless no samples are taken''), s)
      else (Inr (a ! nat (draw_int 0 (int (length a)) (rng s 0))), advance 1 s))"

text \<open>
  Float arithmetic.  Where the code computes with floats (the genes of UniformFloat and
  NormalDist, the hidden genes, \<^verbatim>\<open>mu\<close>, \<^verbatim>\<open>sigma\<close>, \<^verbatim>\<open>alpha\<close>, the bounds of
  UniformFloat), the floats are values of a type \<open>'f\<close> and the operations on them are
  parameters: addition, subtraction, multiplication and division as the machine carries
  them out, the float 1.0, the tests \<^verbatim>\<open>x == 0\<close> and \<^verbatim>\<open>x < 0\<close>, the float that a uniform
  sample is, and the normal deviate that NumPy derives from a raw variate for a given
  location and scale.  Nothing is assumed about rounding, overflow or NaN.
\<close>

record 'f float_ops =
  fadd :: "'f \<Rightarrow> 'f \<Rightarrow> 'f"
  fsub :: "'f \<Rightarrow> 'f \<Rightarrow> 'f"
  fmul :: "'f \<Rightarrow> 'f \<Rightarrow> 'f"
  fdiv :: "'f \<Rightarrow> 'f \<Rightarrow> 'f"
  fone :: "'f"
  fis_zero :: "'f \<Rightarrow> bool"
  fnegative :: "'f \<Rightarrow> bool"
  of_sample :: "real \<Rightarrow> 'f"
  fnormal :: "'f \<Rightarrow> 'f \<Rightarrow> real \<Rightarrow> 'f"

text \<open>
  Exact arithmetic on the reals, for examples whose values doubles compute without
  rounding (small integers and 1/2).
\<close>

definition exact_ops :: "real float_ops" where
  "exact_ops =
     \<lparr>fadd = (+), fsub = (-), fmul = (*), fdiv = (/), fone = 1,
      fis_zero = (\<lambda>x. x = 0), fnegative = (\<lambda>x. x < 0), of_sample = (\<lambda>u. u),
      fnormal = (\<lambda>loc scale r. loc + scale * r)\<rparr>"

text \<open>\<^verbatim>\<open>np.random.normal(loc, scale, size=size)\<close>.\<close>

definition normal ::
  "'f float_ops \<Rightarrow> 'f \<Rightarrow> 'f \<Rightarrow> nat \<Rightarrow> ('g, 'f) world \<Rightarrow> (error + 'f list) \<times> ('g, 'f) world"
  where
  "normal fl loc scale n s =
     (if fnegative fl scale then (Inl (ValueError ''scale < 0''), s)
      else (Inr (map (\<lambda>i. fnormal fl loc scale (rng s i)) [0..<n]), advance n s))"

section \<open>Operator chains (operator.py)\<close>

text \<open>A step of a chain is a single operator or a list of alternatives.\<close>

datatype chain_step = Single operator | Alternatives "operator list"

definition OperatorChain_init :: "chain_step list \<Rightarrow> error + chain_step list" where
  "OperatorChain_init operators = Inr operators"

fun OperatorChain_process ::
  "chain_step list \<Rightarrow> pyobj \<Rightarrow> ('g, 'f) world \<Rightarrow> (error + pyobj) \<times> ('g, 'f) world" where
  "OperatorChain_process [] container s = (Inr container, s)"
| "OperatorChain_process (Single operator # operators) container s =
     (case process operator container s of
        (Inl e, s') \<Rightarrow> (Inl e, s')
      | (Inr container', s') \<Rightarrow> OperatorChain_process operators container' s')"
| "OperatorChain_process (Alternatives alts # operators) container s =
     (case randint_below (int (length alts)) s of
        (Inl e, s1) \<Rightarrow> (Inl e, s1)
      | (Inr k, s1) \<Rightarrow>
          (case process (alts ! nat k) container s1 of
             (Inl e, s') \<Rightarrow> (Inl e, s')
           | (Inr container', s') \<Rightarrow> OperatorChain_process operators container' s'))"

text \<open>
  The spec's words for a chain of single operators: the steps are applied in the order
  given, each step's output is the next step's input.  \<open>then_process\<close> is the call
  \<^verbatim>\<open>operator.process(container)\<close> on the outcome of the previous call, through which an
  exception raised earlier propagates.
\<close>

definition then_process ::
  "(error + pyobj) \<times> ('g, 'f) world \<Rightarrow> operator \<Rightarrow> (error + pyobj) \<times> ('g, 'f) world" where
  "then_process r operator =
     (case r of (Inl e, s) \<Rightarrow> (Inl e, s) | (Inr container, s) \<Rightarrow> process operator container s)"

definition apply_in_order ::
  "operator list \<Rightarrow> pyobj \<Rightarrow> ('g, 'f) world \<Rightarrow> (error + pyobj) \<times> ('g, 'f) world" where
  "apply_in_order operators container s = foldl then_process (Inr container, s) operators"

section \<open>Mutation operators: construction (mutation.py)\<close>

definition BitFlip_init :: "real \<Rightarrow> error + operator" where
  "BitFlip_init prob =
     (case Operator_init None of
        Inl e \<Rightarrow> Inl e
      | Inr self \<Rightarrow> Inr (self\<lparr>cls := BitFlip prob\<rparr>))"

definition UniformInt_init :: "real \<Rightarrow> int \<Rightarrow> int \<Rightarrow> error + operator" where
  "UniformInt_init prob lowest highest =
     (case Operator_init None of
        Inl e \<Rightarrow> Inl e
      | Inr self \<Rightarrow> Inr (self\<lparr>cls := UniformInt prob lowest highest\<rparr>))"

definition UniformFloat_init :: "real \<Rightarrow> real \<Rightarrow> real \<Rightarrow> error + operator" where
  "UniformFloat_init prob lowest highest =
     (case Operator_init None of
        Inl e \<Rightarrow> Inl e
      | Inr self \<Rightarrow> Inr (self\<lparr>cls := UniformFloat prob lowest highest\<rparr>))"

definition NormalDist_init :: "real \<Rightarrow> real \<Rightarrow> real \<Rightarrow> real option \<Rightarrow> error + operator" where
  "NormalDist_init prob mu sigma alpha =
     (case Operator_init None of
        Inl e \<Rightarrow> Inl e
      | Inr self \<Rightarrow> Inr (self\<lparr>cls := NormalDist prob mu sigma alpha\<rparr>))"

fun is_mutation_class :: "op_class \<Rightarrow> bool" where
  "is_mutation_class Operator = False"
| "is_mutation_class c = True"

section \<open>Mutation operators: the hooks (mutation.py)\<close>

text \<open>
  Modelled from the spec: indexing a Population, \<^verbatim>\<open>container[i]\<close>, gives the individual
  at that position and raises IndexError past the end.
\<close>

definition Population_getitem :: "population \<Rightarrow> nat \<Rightarrow> error + addr" where
  "Population_getitem container i =
     (if i < length container then Inr (container ! i)
      else Inl (IndexError ''list index out of range''))"

text \<open>
  Modelled from the spec: \<^verbatim>\<open>Individual.copy\<close> creates a new individual whose genes and
  hidden genes are arrays of its own, equal to the original's at the time of the copy.
\<close>

definition Individual_copy :: "addr \<Rightarrow> ('g, 'f) world \<Rightarrow> addr \<times> ('g, 'f) world" where
  "Individual_copy a s = (length (heap s), s\<lparr>heap := heap s @ [heap s ! a]\<rparr>)"

text \<open>In-place replacement of the gene array, and of the hidden-gene array, of an individual.\<close>

definition set_genes :: "addr \<Rightarrow> 'g list \<Rightarrow> ('g, 'f) world \<Rightarrow> ('g, 'f) world" where
  "set_genes a gs s = s\<lparr>heap := (heap s)[a := (heap s ! a)\<lparr>genes := gs\<rparr>]\<rparr>"

definition set_hidden_genes :: "addr \<Rightarrow> 'f list \<Rightarrow> ('g, 'f) world \<Rightarrow> ('g, 'f) world" where
  "set_hidden_genes a hs s = s\<lparr>heap := (heap s)[a := (heap s ! a)\<lparr>hidden_genes := hs\<rparr>]\<rparr>"

text \<open>\<^verbatim>\<open>np.where(us <= prob)[0]\<close>: the positions that satisfy the test, ascending.\<close>

definition where_le :: "real list \<Rightarrow> real \<Rightarrow> nat list" where
  "where_le us prob = filter (\<lambda>i. us ! i \<le> prob) [0..<length us]"

text \<open>
  NumPy's assignment through an index array, \<^verbatim>\<open>xs[idx] = vals\<close>, and the read
  \<^verbatim>\<open>xs[idx]\<close>.
\<close>

definition put :: "'a list \<Rightarrow> nat list \<Rightarrow> 'a list \<Rightarrow> 'a list" where
  "put xs idx vals = foldl (\<lambda>ys (i, v). ys[i := v]) xs (zip idx vals)"

definition take_at :: "'a list \<Rightarrow> nat list \<Rightarrow> 'a list" where
  "take_at xs idx = map (\<lambda>i. xs ! i) idx"

subsection \<open>BitFlip\<close>

text \<open>
  The loop \<^verbatim>\<open>for i, gene in enumerate(ind.genes)\<close>, over the positions still to visit.
\<close>

fun BitFlip_loop :: "real \<Rightarrow> addr \<Rightarrow> nat list \<Rightarrow> (bool, 'f) world \<Rightarrow> (bool, 'f) world" where
  "BitFlip_loop prob ind [] s = s"
| "BitFlip_loop prob ind (i # rest) s =
     (let gene = genes (heap s ! ind) ! i in
      case random_sample s of
        (u, s1) \<Rightarrow>
          BitFlip_loop prob ind rest
            (if u \<le> prob then set_genes ind ((genes (heap s1 ! ind))[i := \<not> gene]) s1
             else s1))"

definition BitFlip_process_population ::
  "real \<Rightarrow> population \<Rightarrow> (bool, 'f) world \<Rightarrow> (error + population) \<times> (bool, 'f) world" where
  "BitFlip_process_population prob container s =
     (case Population_getitem container 0 of
        Inl e \<Rightarrow> (Inl e, s)
      | Inr a \<Rightarrow>
          (case Individual_copy a s of
             (ind, s1) \<Rightarrow>
               (Inr [ind], BitFlip_loop prob ind [0..<length (genes (heap s1 ! ind))] s1)))"

subsection \<open>UniformInt\<close>

definition UniformInt_process_population ::
  "real \<Rightarrow> int \<Rightarrow> int \<Rightarrow> population \<Rightarrow> (int, 'f) world \<Rightarrow> (error + population) \<times> (int, 'f) world" where
  "UniformInt_process_population prob lowest highest container s =
     (case Population_getitem container 0 of
        Inl e \<Rightarrow> (Inl e, s)
      | Inr a \<Rightarrow>
          (case Individual_copy a s of
             (ind, s1) \<Rightarrow>
               (case random_sample_n (length (genes (heap s1 ! ind))) s1 of
                  (us, s2) \<Rightarrow>
                    (let hits = where_le us prob in
                     case randint lowest (highest + 1) (length hits) s2 of
                       (Inl e, s3) \<Rightarrow> (Inl e, s3)
                     | (Inr vals, s3) \<Rightarrow>
                         (Inr [ind],
                          set_genes ind (put (genes (heap s3 ! ind)) hits vals) s3)))))"

subsection \<open>UniformFloat\<close>

definition UniformFloat_process_population ::
  "'f float_ops \<Rightarrow> real \<Rightarrow> 'f \<Rightarrow> 'f \<Rightarrow> population \<Rightarrow> ('f, 'f) world \<Rightarrow>
   (error + population) \<times> ('f, 'f) world" where
  "UniformFloat_process_population fl prob lowest highest container s =
     (case Population_getitem container 0 of
        Inl e \<Rightarrow> (Inl e, s)
      | Inr a \<Rightarrow>
          (case Individual_copy a s of
             (ind, s1) \<Rightarrow>
               (case random_sample_n (length (genes (heap s1 ! ind))) s1 of
                  (us, s2) \<Rightarrow>
                    (let hits = where_le us prob in
                     case random_sample_n (length hits) s2 of
                       (vs, s3) \<Rightarrow>
                         (Inr [ind],
                          set_genes ind
                            (put (genes (heap s3 ! ind)) hits
                               (map (\<lambda>v. fadd fl (fmul fl (fsub fl highest lowest) (of_sample fl v))
                                           lowest) vs)) s3)))))"

subsection \<open>NormalDist\<close>

text \<open>
  The block guarded by \<^verbatim>\<open>if self._alpha is not None\<close>: it yields the step size to use
  for this call and rescales the stored one.  \<^verbatim>\<open>1/self._alpha\<close> divides Python floats and
  raises on zero.
\<close>

definition NormalDist_step_size ::
  "'f float_ops \<Rightarrow> 'f \<Rightarrow> 'f option \<Rightarrow> addr \<Rightarrow> ('g, 'f) world \<Rightarrow>
   (error + 'f) \<times> ('g, 'f) world" where
  "NormalDist_step_size fl sigma alpha ind s =
     (case alpha of
        None \<Rightarrow> (Inr sigma, s)
      | Some al \<Rightarrow>
          (if hidden_genes (heap s ! ind) = []
           then (Inl (IndexError ''index 0 is out of bounds for axis 0 with size 0''), s)
           else if fis_zero fl al then (Inl (ZeroDivisionError ''float division by zero''), s)
           else
             (case choice [al, fdiv fl (fone fl) al] s of
                (Inl e, s') \<Rightarrow> (Inl e, s')
              | (Inr factor, s') \<Rightarrow>
                  (Inr (hidden_genes (heap s ! ind) ! 0),
                   set_hidden_genes ind
                     ((hidden_genes (heap s' ! ind))
                        [0 := fmul fl (hidden_genes (heap s' ! ind) ! 0) factor]) s'))))"

definition NormalDist_process_population ::
  "'f float_ops \<Rightarrow> real \<Rightarrow> 'f \<Rightarrow> 'f \<Rightarrow> 'f option \<Rightarrow> population \<Rightarrow> ('f, 'f) world \<Rightarrow>
   (error + population) \<times> ('f, 'f) world" where
  "NormalDist_process_population fl prob mu sigma alpha container s =
     (case Population_getitem container 0 of
        Inl e \<Rightarrow> (Inl e, s)
      | Inr a \<Rightarrow>
          (case Individual_copy a s of
             (ind, s1) \<Rightarrow>
               (case random_sample_n (length (genes (heap s1 ! ind))) s1 of
                  (us, s2) \<Rightarrow>
                    (let hits = where_le us prob in
                     case NormalDist_step_size fl sigma alpha ind s2 of
                       (Inl e, s3) \<Rightarrow> (Inl e, s3)
                     | (Inr sigma', s3) \<Rightarrow>
                         (case normal fl mu sigma' (length hits) s3 of
                            (Inl e, s4) \<Rightarrow> (Inl e, s4)
                          | (Inr vals, s4) \<Rightarrow>
                              (Inr [ind],
                               set_genes ind
                                 (put (genes (heap s4 ! ind)) hits
                                    (map2 (fadd fl) (take_at (genes (heap s4 ! ind)) hits) vals))
                                 s4))))))"

text \<open>
  \<open>n\<close> successive applications of NormalDist, each to the population the previous one
  returned.
\<close>

fun NormalDist_repeat ::
  "nat \<Rightarrow> 'f float_ops \<Rightarrow> real \<Rightarrow> 'f \<Rightarrow> 'f \<Rightarrow> 'f option \<Rightarrow> population \<Rightarrow> ('f, 'f) world \<Rightarrow>
   (error + population) \<times> ('f, 'f) world" where
  "NormalDist_repeat 0 fl prob mu sigma alpha container s = (Inr container, s)"
| "NormalDist_repeat (Suc n) fl prob mu sigma alpha container s =
     (case NormalDist_process_population fl prob mu sigma alpha container s of
        (Inl e, s') \<Rightarrow> (Inl e, s')
      | (Inr container', s') \<Rightarrow> NormalDist_repeat n fl prob mu sigma alpha container' s')"

section \<open>Example states\<close>

text \<open>
  The state of a freshly started interpreter around a given store and random stream: the
  default warning filter, nothing registered and nothing shown yet.
\<close>

definition fresh_world :: "('g, 'f) individual list \<Rightarrow> (nat \<Rightarrow> real) \<Rightarrow> ('g, 'f) world" where
  "fresh_world h r =
     \<lparr>heap = h, rng = r, filter_action = ActionDefault, registry = [], onceregistry = [],
      warnings = []\<rparr>"

definition example_bits :: "(bool, real) world" where
  "example_bits = fresh_world [\<lparr>genes = [True], hidden_genes = []\<rparr>] (\<lambda>n. 0)"

definition example_pair :: "(bool, real) world" where
  "example_pair =
     fresh_world [\<lparr>genes = [True], hidden_genes = []\<rparr>, \<lparr>genes = [False], hidden_genes = []\<rparr>]
       (\<lambda>n. 0)"

definition example_ints :: "(int, real) world" where
  "example_ints =
     fresh_world [\<lparr>genes = [7, 8], hidden_genes = []\<rparr>]
       (\<lambda>n. if n = 0 then 1 / 4 else if n = 1 then 3 / 4 else 1 / 2)"

definition example_reals :: "(real, real) world" where
  "example_reals = fresh_world [\<lparr>genes = [5], hidden_genes = [3]\<rparr>] (\<lambda>n. 0)"

section \<open>Properties of Operator.process\<close>

text \<open>
  C1.  Called on a value that is neither a Population nor a Community, \<^verbatim>\<open>process\<close> of any
  operator raises the TypeError "Operator can only process populations or communities";
  it returns no container and leaves the store, the random stream and the warnings as
  they were.
\<close>

theorem process_invalid_container_kind:
  assumes "\<not> isinstance_Population v" and "\<not> isinstance_Community v"
  shows "process self v s =
           (Inl (TypeError ''Operator can only process populations or communities''), s)"
  using assms by (simp add: process_def)

theorem process_invalid_container_kind_witness:
  "\<not> isinstance_Population NoneV \<and> \<not> isinstance_Community NoneV \<and>
   process \<lparr>iter_type = SingleIteration, cls = Operator\<rparr> NoneV example_bits =
     (Inl (TypeError ''Operator can only process populations or communities''), example_bits)"
  using process_invalid_container_kind
    [of NoneV "\<lparr>iter_type = SingleIteration, cls = Operator\<rparr>" example_bits]
  by simp

section \<open>The base operator as identity\<close>













lemma concat_singletons: "concat (map (\<lambda>x. [x]) xs) = xs"
  by (induction xs) simp_all

lemma SingleIteration_partitions:
  "concat (iter_population SingleIteration p) = p"
  "concat (iter_community SingleIteration c) = c"
  "length (iter_population SingleIteration p) = length p"
  "length (iter_community SingleIteration c) = length c"
  by (simp_all add: SingleIteration_def concat_singletons)




section \<open>Chains of single operators\<close>

lemma foldl_then_process_error:
  "foldl then_process (Inl e, s) operators = (Inl e, s)"
  by (induction operators) (simp_all add: then_process_def)

text \<open>
  C3.  A chain whose steps are the single operators \<open>s1, ..., sn\<close> applies them in the
  order given: the outcome of the chain on a container is the outcome of
  \<open>sn.process(... s2.process(s1.process(container)) ...)\<close>, in every state and also
  when a step raises.
\<close>

theorem OperatorChain_process_in_order:
  "OperatorChain_process (map Single operators) container s =
     apply_in_order operators container s"
proof (induction operators arbitrary: container s)
  case Nil
  show ?case by (simp add: apply_in_order_def)
next
  case (Cons operator operators)
  show ?case
  proof (cases "process operator container s")
    case (Pair r s')
    show ?thesis
    proof (cases r)
      case (Inl e)
      with Pair show ?thesis
        by (simp add: apply_in_order_def then_process_def foldl_then_process_error)
    next
      case (Inr container')
      with Pair Cons.IH [of container' s'] show ?thesis
        by (simp add: apply_in_order_def then_process_def)
    qed
  qed
qed

section \<open>The public entry point of the mutation operators\<close>

lemma mutation_population_loop:
  "is_mutation_class (cls self) \<Longrightarrow>
   process_population_loop self (batch # batches) population s =
     (Inl (TypeError (class_name (cls self) @
        ''._process_population() got an unexpected keyword argument pool'')), s)"
  by (cases "cls self") (simp_all add: call_process_population_pool_def)

text \<open>
  C4.  For a mutation operator (BitFlip, UniformInt, UniformFloat, NormalDist),
  \<^verbatim>\<open>process\<close> on a Population raises a TypeError in every state, whatever the random
  stream holds, as soon as the iteration type hands the hook a batch: the hook is called
  with the keyword \<^verbatim>\<open>pool\<close>, which the overriding hooks do not accept.  That is the case
  for every non-empty Population under every iteration type that partitions it, the
  default SingleIteration and any type assigned later among them.  Nothing is drawn from
  the stream and nothing is changed.
\<close>

theorem mutation_process_raises_TypeError:
  assumes "is_mutation_class (cls self)"
  shows "(iter_population (iter_type self) p \<noteq> [] \<longrightarrow>
            process self (PopulationV p) s =
              (Inl (TypeError (class_name (cls self) @
                 ''._process_population() got an unexpected keyword argument pool'')), s)) \<and>
         (p \<noteq> [] \<and> concat (iter_population (iter_type self) p) = p \<longrightarrow>
            process self (PopulationV p) s =
              (Inl (TypeError (class_name (cls self) @
                 ''._process_population() got an unexpected keyword argument pool'')), s)) \<and>
         (p \<noteq> [] \<and> iter_type self = SingleIteration \<longrightarrow>
            process self (PopulationV p) s =
              (Inl (TypeError (class_name (cls self) @
                 ''._process_population() got an unexpected keyword argument pool'')), s))"
proof -
  have general: "process self (PopulationV p) s =
              (Inl (TypeError (class_name (cls self) @
                 ''._process_population() got an unexpected keyword argument pool'')), s)"
    if "iter_population (iter_type self) p \<noteq> []"
  proof -
    from that obtain b bs where "iter_population (iter_type self) p = b # bs"
      by (cases "iter_population (iter_type self) p") auto
    then show ?thesis
      by (simp add: process_def mutation_population_loop [OF assms]
          del: process_population_loop.simps)
  qed
  have part: "iter_population (iter_type self) p \<noteq> []"
    if "p \<noteq> [] \<and> concat (iter_population (iter_type self) p) = p"
    using that by auto
  have single: "iter_population (iter_type self) p \<noteq> []"
    if "p \<noteq> [] \<and> iter_type self = SingleIteration"
    using that by (simp add: SingleIteration_def)
  from general part single show ?thesis by blast
qed

theorem mutation_process_raises_TypeError_witness:
  "BitFlip_init 1 = Inr \<lparr>iter_type = SingleIteration, cls = BitFlip 1\<rparr> \<and>
   is_mutation_class (cls \<lparr>iter_type = SingleIteration, cls = BitFlip 1\<rparr>) \<and>
   [0::nat] \<noteq> [] \<and>
   process \<lparr>iter_type = SingleIteration, cls = BitFlip 1\<rparr> (PopulationV [0]) example_bits =
     (Inl (TypeError ''BitFlip._process_population() got an unexpected keyword argument pool''),
      example_bits) \<and>
   set_iter_type \<lparr>iter_type = SingleIteration, cls = BitFlip 1\<rparr>
       (IterationTypeV \<lparr>iter_population = (\<lambda>p. [p]), iter_community = (\<lambda>c. [c])\<rparr>) =
     Inr \<lparr>iter_type = \<lparr>iter_population = (\<lambda>p. [p]), iter_community = (\<lambda>c. [c])\<rparr>,
          cls = BitFlip 1\<rparr> \<and>
   concat (iter_population \<lparr>iter_population = (\<lambda>p. [p]), iter_community = (\<lambda>c. [c])\<rparr>
     [0, 1]) = [0, 1] \<and>
   process \<lparr>iter_type = \<lparr>iter_population = (\<lambda>p. [p]), iter_community = (\<lambda>c. [c])\<rparr>,
            cls = BitFlip 1\<rparr> (PopulationV [0, 1]) example_pair =
     (Inl (TypeError ''BitFlip._process_population() got an unexpected keyword argument pool''),
      example_pair)"
  using mutation_process_raises_TypeError
    [where self = "\<lparr>iter_type = SingleIteration, cls = BitFlip 1\<rparr>" and p = "[0]" and
      s = example_bits]
    mutation_process_raises_TypeError
    [where self = "\<lparr>iter_type = \<lparr>iter_population = (\<lambda>p. [p]), iter_community = (\<lambda>c. [c])\<rparr>,
        cls = BitFlip 1\<rparr>" and p = "[0, 1]" and s = example_pair]
  by (simp add: BitFlip_init_def Operator_init_def set_iter_type_def)

section \<open>Construction and configuration\<close>

text \<open>
  C6 (as the code has it).  The constructors of the four mutation operators validate
  nothing: for every probability, inside [0, 1] or not, and for every other parameter,
  construction succeeds and stores the arguments as given, with the default iteration
  type.
\<close>

theorem mutation_init_accepts_every_prob:
  "BitFlip_init prob = Inr \<lparr>iter_type = SingleIteration, cls = BitFlip prob\<rparr> \<and>
   UniformInt_init prob lowest highest =
     Inr \<lparr>iter_type = SingleIteration, cls = UniformInt prob lowest highest\<rparr> \<and>
   UniformFloat_init prob flowest fhighest =
     Inr \<lparr>iter_type = SingleIteration, cls = UniformFloat prob flowest fhighest\<rparr> \<and>
   NormalDist_init prob mu sigma alpha =
     Inr \<lparr>iter_type = SingleIteration, cls = NormalDist prob mu sigma alpha\<rparr>"
  by (simp add: BitFlip_init_def UniformInt_init_def UniformFloat_init_def NormalDist_init_def
      Operator_init_def)

text \<open>
  C6 as stated fails: a probability of 2, and one of -1, are accepted at construction.
\<close>

theorem mutation_init_prob_out_of_range:
  "(1::real) < 2 \<and>
   BitFlip_init 2 = Inr \<lparr>iter_type = SingleIteration, cls = BitFlip 2\<rparr> \<and>
   (- 1::real) < 0 \<and>
   UniformInt_init (- 1) 0 5 = Inr \<lparr>iter_type = SingleIteration, cls = UniformInt (- 1) 0 5\<rparr>"
  by (simp add: BitFlip_init_def UniformInt_init_def Operator_init_def)

text \<open>
  C10.  Assigning to the property \<^verbatim>\<open>iter_type\<close> a value that is not an IterationType
  raises a TypeError and stores nothing; assigning an IterationType succeeds and the
  operator then holds that iteration type, its class unchanged.
\<close>

theorem set_iter_type_checks:
  "(\<not> isinstance_IterationType v \<longrightarrow>
      set_iter_type self v = Inl (TypeError ''Expected IterationType'')) \<and>
   set_iter_type self (IterationTypeV t) = Inr (self\<lparr>iter_type := t\<rparr>) \<and>
   iter_type (self\<lparr>iter_type := t\<rparr>) = t \<and> cls (self\<lparr>iter_type := t\<rparr>) = cls self"
  by (cases v) (simp_all add: set_iter_type_def)

theorem set_iter_type_checks_witness:
  "\<not> isinstance_IterationType (IntV 3) \<and>
   set_iter_type \<lparr>iter_type = SingleIteration, cls = Operator\<rparr> (IntV 3) =
     Inl (TypeError ''Expected IterationType'') \<and>
   set_iter_type \<lparr>iter_type = SingleIteration, cls = Operator\<rparr>
       (IterationTypeV \<lparr>iter_population = (\<lambda>p. [p]), iter_community = (\<lambda>c. [c])\<rparr>) =
     Inr \<lparr>iter_type = \<lparr>iter_population = (\<lambda>p. [p]), iter_community = (\<lambda>c. [c])\<rparr>,
          cls = Operator\<rparr>"
  using set_iter_type_checks
    [of "IntV 3" "\<lparr>iter_type = SingleIteration, cls = Operator\<rparr>"
        "\<lparr>iter_population = (\<lambda>p. [p]), iter_community = (\<lambda>c. [c])\<rparr>"]
  by simp

section \<open>The random stream and index assignment\<close>

lemma advance_0: "advance 0 s = s"
  by (simp add: advance_def)

lemma frac_bounds: "0 \<le> frac (r::real)" "frac r < 1"
  by (simp_all add: frac_lt_1)

lemma draw_int_bounds:
  assumes "low < high"
  shows "low \<le> draw_int low high r \<and> draw_int low high r < high"
proof -
  let ?x = "frac r * of_int (high - low)"
  have pos: "(0::real) < of_int (high - low)" using assms by simp
  have "0 \<le> ?x" using pos by (simp add: frac_bounds)
  then have lo: "0 \<le> \<lfloor>?x\<rfloor>" by simp
  have "?x < 1 * of_int (high - low)"
    using pos frac_lt_1 [of r] by (intro mult_strict_right_mono) auto
  then have "?x < of_int (high - low)" by simp
  then have hi: "\<lfloor>?x\<rfloor> < high - low" by (simp add: floor_less_iff)
  from lo hi show ?thesis by (simp add: draw_int_def)
qed

lemma randint_Inr:
  assumes "randint low high n s = (Inr vals, s')"
  shows "s' = advance n s \<and> vals = map (\<lambda>i. draw_int low high (rng s i)) [0..<n] \<and>
         (\<forall>v \<in> set vals. low \<le> v \<and> v < high)"
proof (cases "n = 0")
  case True
  with assms show ?thesis by (simp add: randint_def advance_0)
next
  case False
  with assms have ok: "low < high"
    by (simp add: randint_def split: if_splits)
  from False assms have "s' = advance n s" "vals = map (\<lambda>i. draw_int low high (rng s i)) [0..<n]"
    by (auto simp add: randint_def split: if_splits)
  with draw_int_bounds [OF ok] show ?thesis by auto
qed

lemma randint_returns:
  "int64_min \<le> low \<Longrightarrow> low < high \<Longrightarrow> high - 1 \<le> int64_max \<Longrightarrow>
   randint low high n s = (Inr (map (\<lambda>i. draw_int low high (rng s i)) [0..<n]), advance n s)"
  by (simp add: randint_def advance_0)

lemma foldl_put_length:
  "length (foldl (\<lambda>ys (i, v). ys[i := v]) xs ps) = length xs"
  by (induction ps arbitrary: xs) (simp_all add: case_prod_beta)

lemma foldl_put_other:
  "j \<notin> fst ` set ps \<Longrightarrow> foldl (\<lambda>ys (i, v). ys[i := v]) xs ps ! j = xs ! j"
  by (induction ps arbitrary: xs) (auto simp add: case_prod_beta)

lemma foldl_put_hit:
  "distinct (map fst ps) \<Longrightarrow> (j, w) \<in> set ps \<Longrightarrow> j < length xs \<Longrightarrow>
   foldl (\<lambda>ys (i, v). ys[i := v]) xs ps ! j = w"
proof (induction ps arbitrary: xs)
  case Nil
  then show ?case by simp
next
  case (Cons p ps)
  show ?case
  proof (cases "p = (j, w)")
    case True
    with Cons.prems have "j \<notin> fst ` set ps" by auto
    with True Cons.prems show ?thesis by (simp add: foldl_put_other)
  next
    case False
    with Cons.prems have "(j, w) \<in> set ps" "distinct (map fst ps)" by auto
    with Cons.IH [of "xs[fst p := snd p]"] Cons.prems show ?thesis
      by (simp add: case_prod_beta)
  qed
qed

lemma put_length: "length (put xs idx vals) = length xs"
  by (simp add: put_def foldl_put_length)

lemma put_other: "j \<notin> set idx \<Longrightarrow> put xs idx vals ! j = xs ! j"
proof -
  assume "j \<notin> set idx"
  then have "j \<notin> fst ` set (zip idx vals)" by (auto dest: set_zip_leftD)
  then show ?thesis by (simp add: put_def foldl_put_other)
qed

lemma put_hit:
  assumes "distinct idx" and "length vals = length idx" and "j \<in> set idx" and "j < length xs"
  shows "\<exists>k < length idx. idx ! k = j \<and> put xs idx vals ! j = vals ! k"
proof -
  from assms(3) obtain k where k: "k < length idx" "idx ! k = j"
    by (auto simp add: in_set_conv_nth)
  with assms(2) have "(j, vals ! k) \<in> set (zip idx vals)"
    by (auto simp add: in_set_zip)
  moreover have "distinct (map fst (zip idx vals))"
    using assms(1,2) by simp
  ultimately have "put xs idx vals ! j = vals ! k"
    using assms(4) by (simp add: put_def foldl_put_hit)
  with k show ?thesis by auto
qed

lemma where_le_set: "set (where_le us prob) = {i. i < length us \<and> us ! i \<le> prob}"
  by (auto simp add: where_le_def)

lemma where_le_distinct: "distinct (where_le us prob)"
  by (simp add: where_le_def)

lemma where_le_samples:
  "i < n \<Longrightarrow> i \<in> set (where_le (map (\<lambda>i. frac (r i)) [0..<n]) prob) \<longleftrightarrow> frac (r i) \<le> prob"
  by (simp add: where_le_set)

lemma put_where_le:
  assumes len: "length vals = length (where_le us prob)"
    and i: "i < length g" and us: "length us = length g"
  shows "(us ! i \<le> prob \<longrightarrow>
           (\<exists>k < length vals. where_le us prob ! k = i \<and>
              put g (where_le us prob) vals ! i = vals ! k)) \<and>
         (\<not> us ! i \<le> prob \<longrightarrow> put g (where_le us prob) vals ! i = g ! i)"
proof (intro conjI impI)
  assume "us ! i \<le> prob"
  with i us have "i \<in> set (where_le us prob)" by (simp add: where_le_set)
  from put_hit [OF where_le_distinct len this i] len
  show "\<exists>k < length vals. where_le us prob ! k = i \<and>
          put g (where_le us prob) vals ! i = vals ! k"
    by auto
next
  assume "\<not> us ! i \<le> prob"
  then have "i \<notin> set (where_le us prob)" by (simp add: where_le_set)
  then show "put g (where_le us prob) vals ! i = g ! i" by (rule put_other)
qed

section \<open>UniformInt\<close>

lemma UniformInt_unfold:
  assumes "a < length (heap s)"
  shows "UniformInt_process_population prob lowest highest [a] s =
     (let g = genes (heap s ! a);
          hits = where_le (map (\<lambda>i. frac (rng s i)) [0..<length g]) prob in
      case randint lowest (highest + 1) (length hits)
             (advance (length g) (s\<lparr>heap := heap s @ [heap s ! a]\<rparr>)) of
        (Inl e, s3) \<Rightarrow> (Inl e, s3)
      | (Inr vals, s3) \<Rightarrow>
          (Inr [length (heap s)], set_genes (length (heap s)) (put (genes (heap s3 ! length (heap s))) hits vals) s3))"
  using assms
  by (simp add: UniformInt_process_population_def Population_getitem_def Individual_copy_def
      random_sample_n_def Let_def advance_def cong: sum.case_cong prod.case_cong)

lemma heap_advance [simp]: "heap (advance n s) = heap s"
  by (simp add: advance_def)


lemma UniformInt_Inr:
  assumes a: "a < length (heap s)"
    and run: "UniformInt_process_population prob lowest highest [a] s = (Inr pop, s')"
  shows "\<exists>vals. pop = [length (heap s)] \<and>
           length vals = length (where_le (map (\<lambda>i. frac (rng s i)) [0..<length (genes (heap s ! a))]) prob) \<and>
           (\<forall>v \<in> set vals. lowest \<le> v \<and> v \<le> highest) \<and>
           heap s' = heap s @ [(heap s ! a)\<lparr>genes :=
              put (genes (heap s ! a))
                (where_le (map (\<lambda>i. frac (rng s i)) [0..<length (genes (heap s ! a))]) prob) vals\<rparr>]"
proof -
  let ?g = "genes (heap s ! a)"
  let ?hits = "where_le (map (\<lambda>i. frac (rng s i)) [0..<length ?g]) prob"
  let ?s2 = "advance (length ?g) (s\<lparr>heap := heap s @ [heap s ! a]\<rparr>)"
  obtain r s3 where r: "randint lowest (highest + 1) (length ?hits) ?s2 = (r, s3)"
    by (cases "randint lowest (highest + 1) (length ?hits) ?s2") auto
  with run a obtain vals where vals: "r = Inr vals"
    by (cases r) (auto simp add: UniformInt_unfold Let_def)
  from randint_Inr [OF r [unfolded vals]]
  have s3: "s3 = advance (length ?hits) ?s2"
    and len: "length vals = length ?hits"
    and rng: "\<forall>v \<in> set vals. lowest \<le> v \<and> v \<le> highest"
    by auto
  from run a r vals have "pop = [length (heap s)]"
    and "s' = set_genes (length (heap s)) (put (genes (heap s3 ! length (heap s))) ?hits vals) s3"
    by (auto simp add: UniformInt_unfold Let_def)
  then have "pop = [length (heap s)]"
    and "heap s' = heap s @ [(heap s ! a)\<lparr>genes := put ?g ?hits vals\<rparr>]"
    by (simp_all add: s3 set_genes_def)
  with len rng show ?thesis by blast
qed

lemma UniformInt_returns:
  assumes a: "a < length (heap s)"
    and ok: "int64_min \<le> lowest" "lowest \<le> highest" "highest \<le> int64_max"
  shows "\<exists>s'. UniformInt_process_population prob lowest highest [a] s = (Inr [length (heap s)], s')"
  using a ok by (simp add: UniformInt_unfold Let_def randint_returns)


text \<open>
  C8.  UniformInt(prob, lowest, highest) applied to a single-individual batch: whenever
  the hook returns, it returns one new individual with as many genes as the input; gene
  \<open>i\<close> was selected exactly when the \<open>i\<close>-th Bernoulli draw was at most \<open>prob\<close>;
  every selected gene then holds an integer of the inclusive range [lowest, highest]
  and every other gene holds its input value.  The hook does return when
  lowest \<le> highest are 64-bit integers.
\<close>

theorem UniformInt_mutated_in_range:
  assumes a: "a < length (heap s)"
  shows "(\<forall>pop s'. UniformInt_process_population prob lowest highest [a] s = (Inr pop, s') \<longrightarrow>
            pop = [length (heap s)] \<and>
            length (heap s') = Suc (length (heap s)) \<and>
            length (genes (heap s' ! length (heap s))) = length (genes (heap s ! a)) \<and>
            (\<forall>i < length (genes (heap s ! a)).
               (frac (rng s i) \<le> prob \<longrightarrow>
                  lowest \<le> genes (heap s' ! length (heap s)) ! i \<and>
                  genes (heap s' ! length (heap s)) ! i \<le> highest) \<and>
               (\<not> frac (rng s i) \<le> prob \<longrightarrow>
                  genes (heap s' ! length (heap s)) ! i = genes (heap s ! a) ! i))) \<and>
         (int64_min \<le> lowest \<and> lowest \<le> highest \<and> highest \<le> int64_max \<longrightarrow>
            (\<exists>s'. UniformInt_process_population prob lowest highest [a] s =
                    (Inr [length (heap s)], s')))"
proof (intro conjI allI impI)
  fix pop s'
  assume run: "UniformInt_process_population prob lowest highest [a] s = (Inr pop, s')"
  let ?g = "genes (heap s ! a)"
  let ?hits = "where_le (map (\<lambda>i. frac (rng s i)) [0..<length ?g]) prob"
  from UniformInt_Inr [OF a run] obtain vals where
    pop: "pop = [length (heap s)]" and len: "length vals = length ?hits"
    and rng: "\<forall>v \<in> set vals. lowest \<le> v \<and> v \<le> highest"
    and hp: "heap s' = heap s @ [(heap s ! a)\<lparr>genes := put ?g ?hits vals\<rparr>]"
    by blast
  have new: "genes (heap s' ! length (heap s)) = put ?g ?hits vals"
    by (simp add: hp)
  show "pop = [length (heap s)]" by (rule pop)
  show "length (heap s') = Suc (length (heap s))" by (simp add: hp)
  show "length (genes (heap s' ! length (heap s))) = length ?g"
    by (simp add: new put_length)
  {
    fix i
    assume i: "i < length ?g"
    {
      assume "frac (rng s i) \<le> prob"
      with i have "i \<in> set ?hits" by (simp add: where_le_set)
      from put_hit [OF where_le_distinct len this i] obtain k where
        "k < length ?hits" "put ?g ?hits vals ! i = vals ! k" by blast
      with len have "put ?g ?hits vals ! i \<in> set vals" by simp
      with rng have "lowest \<le> put ?g ?hits vals ! i \<and> put ?g ?hits vals ! i \<le> highest"
        by blast
      then show "lowest \<le> genes (heap s' ! length (heap s)) ! i" 
        and "genes (heap s' ! length (heap s)) ! i \<le> highest"
        by (simp_all add: new)
    }
    {
      assume "\<not> frac (rng s i) \<le> prob"
      with i have "i \<notin> set ?hits" by (simp add: where_le_set)
      then show "genes (heap s' ! length (heap s)) ! i = ?g ! i"
        by (simp add: new put_other)
    }
  }
next
  assume "int64_min \<le> lowest \<and> lowest \<le> highest \<and> highest \<le> int64_max"
  with UniformInt_returns [OF a]
  show "\<exists>s'. UniformInt_process_population prob lowest highest [a] s = (Inr [length (heap s)], s')"
    by blast
qed

theorem UniformInt_mutated_in_range_witness:
  "0 < length (heap example_ints) \<and>
   int64_min \<le> 0 \<and> (0::int) \<le> 5 \<and> 5 \<le> int64_max \<and>
   frac (rng example_ints 0) \<le> 1 / 2 \<and> \<not> frac (rng example_ints 1) \<le> 1 / 2 \<and>
   (\<exists>s'. UniformInt_process_population (1 / 2) 0 5 [0] example_ints =
           (Inr [length (heap example_ints)], s')) \<and>
   genes (heap example_ints ! 0) = [7, 8] \<and>
   genes (heap (snd (UniformInt_process_population (1 / 2) 0 5 [0] example_ints)) ! 1) = [3, 8]"
proof -
  have a: "0 < length (heap example_ints)"
    by (simp add: example_ints_def fresh_world_def)
  have ok: "int64_min \<le> 0 \<and> (0::int) \<le> 5 \<and> 5 \<le> int64_max"
    by (simp add: int64_min_def int64_max_def)
  have draws: "frac (rng example_ints 0) \<le> 1 / 2 \<and> \<not> frac (rng example_ints 1) \<le> 1 / 2"
    by (simp add: example_ints_def fresh_world_def frac_def)
  have run: "genes (heap example_ints ! 0) = [7, 8] \<and>
     genes (heap (snd (UniformInt_process_population (1 / 2) 0 5 [0] example_ints)) ! 1) = [3, 8]"
    by (simp add: example_ints_def fresh_world_def UniformInt_process_population_def randint_def
        int64_min_def int64_max_def draw_int_def where_le_def put_def frac_def
        Population_getitem_def Individual_copy_def random_sample_n_def advance_def
        set_genes_def Let_def)
  from UniformInt_mutated_in_range [OF a, where prob = "1 / 2" and lowest = 0 and highest = 5] ok
  have "\<exists>s'. UniformInt_process_population (1 / 2) 0 5 [0] example_ints =
           (Inr [length (heap example_ints)], s')"
    by blast
  with a ok draws run show ?thesis by blast
qed

section \<open>BitFlip\<close>

text \<open>
  What the loop of BitFlip leaves in the gene array: the positions are visited in turn,
  each consuming one draw of the stream.
\<close>

fun flipped :: "real \<Rightarrow> nat list \<Rightarrow> (nat \<Rightarrow> real) \<Rightarrow> bool list \<Rightarrow> bool list" where
  "flipped prob [] r g = g"
| "flipped prob (i # rest) r g =
     flipped prob rest (\<lambda>k. r (Suc k)) (if frac (r 0) \<le> prob then g[i := \<not> g ! i] else g)"


lemma BitFlip_loop_state:
  "ind < length (heap s) \<Longrightarrow>
   BitFlip_loop prob ind idx s =
     s\<lparr>heap := (heap s)[ind := (heap s ! ind)\<lparr>genes := flipped prob idx (rng s) (genes (heap s ! ind))\<rparr>],
       rng := (\<lambda>k. rng s (length idx + k))\<rparr>"
proof (induction idx arbitrary: s)
  case Nil
  then show ?case by simp
next
  case (Cons i rest)
  then show ?case
    by (simp add: random_sample_def advance_def set_genes_def Let_def)
qed

lemma flipped_length: "length (flipped prob idx r g) = length g"
  by (induction idx arbitrary: r g) simp_all

lemma flipped_upt:
  "n \<le> length g \<Longrightarrow> j < length g \<Longrightarrow>
   flipped prob [k..<n] r g ! j =
     (if k \<le> j \<and> j < n \<and> frac (r (j - k)) \<le> prob then \<not> g ! j else g ! j)"
proof (induction "n - k" arbitrary: k r g)
  case 0
  then show ?case by simp
next
  case (Suc d)
  then have kn: "k < n" by simp
  then have upt: "[k..<n] = k # [Suc k..<n]" by (simp add: upt_conv_Cons)
  have d: "d = n - Suc k" using Suc by simp
  show ?case
  proof (cases "frac (r 0) \<le> prob")
    case True
    have "flipped prob [k..<n] r g ! j = flipped prob [Suc k..<n] (\<lambda>i. r (Suc i)) (g[k := \<not> g ! k]) ! j"
      using True by (simp add: upt)
    also have "\<dots> = (if Suc k \<le> j \<and> j < n \<and> frac (r (Suc (j - Suc k))) \<le> prob
                     then \<not> (g[k := \<not> g ! k]) ! j else (g[k := \<not> g ! k]) ! j)"
      using Suc.hyps(1) [OF d, of "g[k := \<not> g ! k]" "\<lambda>i. r (Suc i)"] Suc.prems by simp
    also have "\<dots> = (if k \<le> j \<and> j < n \<and> frac (r (j - k)) \<le> prob then \<not> g ! j else g ! j)"
      using True kn Suc.prems by (cases "j = k") (auto simp: Suc_diff_Suc)
    finally show ?thesis .
  next
    case False
    have "flipped prob [k..<n] r g ! j = flipped prob [Suc k..<n] (\<lambda>i. r (Suc i)) g ! j"
      using False by (simp add: upt)
    also have "\<dots> = (if Suc k \<le> j \<and> j < n \<and> frac (r (Suc (j - Suc k))) \<le> prob
                     then \<not> g ! j else g ! j)"
      using Suc.hyps(1) [OF d, of g "\<lambda>i. r (Suc i)"] Suc.prems by simp
    also have "\<dots> = (if k \<le> j \<and> j < n \<and> frac (r (j - k)) \<le> prob then \<not> g ! j else g ! j)"
      using False kn Suc.prems by (cases "j = k") (auto simp: Suc_diff_Suc)
    finally show ?thesis .
  qed
qed

lemma flipped_all:
  "flipped prob [0..<length g] r g = map (\<lambda>i. if frac (r i) \<le> prob then \<not> g ! i else g ! i) [0..<length g]"
  by (rule nth_equalityI) (simp_all add: flipped_length flipped_upt)

lemma BitFlip_result:
  assumes "a < length (heap s)"
  shows "BitFlip_process_population prob [a] s =
    (Inr [length (heap s)],
     s\<lparr>heap := heap s @ [(heap s ! a)\<lparr>genes :=
           map (\<lambda>i. if frac (rng s i) \<le> prob then \<not> genes (heap s ! a) ! i else genes (heap s ! a) ! i)
             [0..<length (genes (heap s ! a))]\<rparr>],
       rng := (\<lambda>k. rng s (length (genes (heap s ! a)) + k))\<rparr>)"
  using assms
  by (simp add: BitFlip_process_population_def Population_getitem_def Individual_copy_def
      BitFlip_loop_state flipped_all)

lemma BitFlip_prob_one_flips_every_gene:
  assumes "a < length (heap s)"
  shows "fst (BitFlip_process_population 1 [a] s) = Inr [length (heap s)] \<and>
         genes (heap (snd (BitFlip_process_population 1 [a] s)) ! length (heap s)) =
           map Not (genes (heap s ! a))"
proof -
  have "\<And>i. frac (rng s i) \<le> 1" using frac_lt_1 [of "rng s _"] by (simp add: less_imp_le)
  then have "map (\<lambda>i. if frac (rng s i) \<le> 1 then \<not> genes (heap s ! a) ! i
                       else genes (heap s ! a) ! i) [0..<length (genes (heap s ! a))] =
             map Not (genes (heap s ! a))"
    by (intro nth_equalityI) simp_all
  with assms show ?thesis by (simp add: BitFlip_result)
qed

lemma BitFlip_prob_zero_identity_on_positive_draws:
  assumes "a < length (heap s)"
    and "\<forall>i < length (genes (heap s ! a)). frac (rng s i) \<noteq> 0"
  shows "fst (BitFlip_process_population 0 [a] s) = Inr [length (heap s)] \<and>
         genes (heap (snd (BitFlip_process_population 0 [a] s)) ! length (heap s)) =
           genes (heap s ! a)"
proof -
  have "\<not> frac (rng s i) \<le> 0" if "i < length (genes (heap s ! a))" for i
  proof -
    from that assms(2) have "frac (rng s i) \<noteq> 0" by blast
    moreover have "0 \<le> frac (rng s i)" by (rule frac_ge_0)
    ultimately show ?thesis by linarith
  qed
  then have "map (\<lambda>i. if frac (rng s i) \<le> 0 then \<not> genes (heap s ! a) ! i
                       else genes (heap s ! a) ! i) [0..<length (genes (heap s ! a))] =
             genes (heap s ! a)"
    by (intro nth_equalityI) simp_all
  with assms(1) show ?thesis by (simp add: BitFlip_result)
qed

text \<open>
  C7.  BitFlip with prob = 0.0 is meant to return the genes as they are, for every random
  stream.  The test of the loop is \<^verbatim>\<open>random_sample() <= prob\<close> and \<^verbatim>\<open>random_sample\<close> draws
  from [0.0, 1.0): on a draw of exactly 0.0 the gene is flipped although prob is 0.0.
  Here the individual with the single gene True comes back with the gene False.
\<close>

theorem BitFlip_prob_zero_flips_on_zero_draw:
  "frac (rng example_bits 0) = 0 \<and>
   genes (heap example_bits ! 0) = [True] \<and>
   fst (BitFlip_process_population 0 [0] example_bits) = Inr [1] \<and>
   genes (heap (snd (BitFlip_process_population 0 [0] example_bits)) ! 1) = [False]"
  by (simp add: example_bits_def fresh_world_def BitFlip_process_population_def Population_getitem_def
      Individual_copy_def random_sample_def advance_def set_genes_def Let_def)

section \<open>NormalDist\<close>

lemma heap_randint: "randint low high n s = (r, s') \<Longrightarrow> heap s' = heap s"
  by (auto simp add: randint_def split: if_splits)

lemma normal_Inr:
  assumes "normal fl loc scale n s = (Inr vals, s')"
  shows "s' = advance n s \<and> vals = map (\<lambda>i. fnormal fl loc scale (rng s i)) [0..<n] \<and>
         \<not> fnegative fl scale"
  using assms by (auto simp add: normal_def split: if_splits)

lemma heap_normal: "normal fl loc scale n s = (r, s') \<Longrightarrow> heap s' = heap s"
  by (auto simp add: normal_def split: if_splits)

lemma choice_pair:
  "\<exists>f. (f = x \<or> f = y) \<and> choice [x, y] s = (Inr f, advance 1 s)"
proof -
  have "0 \<le> draw_int 0 2 (rng s 0) \<and> draw_int 0 2 (rng s 0) < 2"
    by (rule draw_int_bounds) simp
  then have "nat (draw_int 0 2 (rng s 0)) = 0 \<or> nat (draw_int 0 2 (rng s 0)) = 1"
    by auto
  then show ?thesis
    by (auto simp add: choice_def)
qed

lemma step_size_None: "NormalDist_step_size fl sigma None ind s = (Inr sigma, s)"
  by (simp add: NormalDist_step_size_def)

lemma step_size_Some_Inr:
  assumes "NormalDist_step_size fl sigma (Some al) ind s = (Inr sg, s')"
  shows "\<not> fis_zero fl al \<and> hidden_genes (heap s ! ind) \<noteq> [] \<and>
         sg = hidden_genes (heap s ! ind) ! 0 \<and>
         (\<exists>f. (f = al \<or> f = fdiv fl (fone fl) al) \<and>
            s' = set_hidden_genes ind ((hidden_genes (heap s ! ind))
                   [0 := fmul fl (hidden_genes (heap s ! ind) ! 0) f]) (advance 1 s))"
proof -
  from assms have nz: "\<not> fis_zero fl al" and ne: "hidden_genes (heap s ! ind) \<noteq> []"
    by (auto simp add: NormalDist_step_size_def split: if_splits)
  from choice_pair [of al "fdiv fl (fone fl) al" s] obtain f where
    f: "f = al \<or> f = fdiv fl (fone fl) al"
      "choice [al, fdiv fl (fone fl) al] s = (Inr f, advance 1 s)" by blast
  with assms nz ne show ?thesis
    by (auto simp add: NormalDist_step_size_def)
qed

lemma step_size_Some_returns:
  assumes "\<not> fis_zero fl al" and "hidden_genes (heap s ! ind) \<noteq> []"
  shows "\<exists>s'. NormalDist_step_size fl sigma (Some al) ind s =
                (Inr (hidden_genes (heap s ! ind) ! 0), s')"
proof -
  from choice_pair [of al "fdiv fl (fone fl) al" s] obtain f where
    "choice [al, fdiv fl (fone fl) al] s = (Inr f, advance 1 s)" by blast
  with assms show ?thesis by (simp add: NormalDist_step_size_def)
qed

lemma step_size_frame:
  assumes "NormalDist_step_size fl sigma alpha ind s = (r, s')" and ind: "ind < length (heap s)"
  shows "length (heap s') = length (heap s) \<and> (\<forall>b. b \<noteq> ind \<longrightarrow> heap s' ! b = heap s ! b) \<and>
         genes (heap s' ! ind) = genes (heap s ! ind)"
proof (cases alpha)
  case None
  with assms show ?thesis by (simp add: step_size_None)
next
  case (Some al)
  show ?thesis
  proof (cases r)
    case (Inl e)
    with assms Some have "s' = s \<or> s' = advance 1 s"
      by (auto simp add: NormalDist_step_size_def choice_def split: if_splits)
    then show ?thesis by auto
  next
    case (Inr sg)
    from step_size_Some_Inr [OF assms(1) [unfolded Some Inr]] ind show ?thesis
      by (auto simp add: set_hidden_genes_def)
  qed
qed

lemma NormalDist_unfold:
  assumes "a < length (heap s)"
  shows "NormalDist_process_population fl prob mu sigma alpha [a] s =
     (let g = genes (heap s ! a);
          hits = where_le (map (\<lambda>i. frac (rng s i)) [0..<length g]) prob in
      case NormalDist_step_size fl sigma alpha (length (heap s))
             (advance (length g) (s\<lparr>heap := heap s @ [heap s ! a]\<rparr>)) of
        (Inl e, s3) \<Rightarrow> (Inl e, s3)
      | (Inr sigma', s3) \<Rightarrow>
          (case normal fl mu sigma' (length hits) s3 of
             (Inl e, s4) \<Rightarrow> (Inl e, s4)
           | (Inr vals, s4) \<Rightarrow>
               (Inr [length (heap s)],
                set_genes (length (heap s))
                  (put (genes (heap s4 ! length (heap s))) hits
                     (map2 (fadd fl) (take_at (genes (heap s4 ! length (heap s))) hits) vals))
                  s4)))"
  using assms
  by (simp add: NormalDist_process_population_def Population_getitem_def Individual_copy_def
      random_sample_n_def Let_def advance_def cong: sum.case_cong prod.case_cong)

lemma take_frame:
  "length xs = Suc n \<Longrightarrow> (\<forall>b. b \<noteq> n \<longrightarrow> xs ! b = (ys @ [y]) ! b) \<Longrightarrow> length ys = n \<Longrightarrow>
   take n xs = ys"
  by (rule nth_equalityI) (auto simp add: nth_append)

text \<open>The step size that a call of NormalDist uses for its normal deviates.\<close>

definition step_size_used :: "'f \<Rightarrow> 'f option \<Rightarrow> 'f list \<Rightarrow> 'f" where
  "step_size_used sigma alpha h = (case alpha of None \<Rightarrow> sigma | Some al \<Rightarrow> h ! 0)"

lemma NormalDist_outcome:
  assumes a: "a < length (heap s)"
    and run: "NormalDist_process_population fl prob mu sigma alpha [a] s = (r, s')"
  shows "length (heap s') = Suc (length (heap s)) \<and> take (length (heap s)) (heap s') = heap s \<and>
         (\<forall>pop. r = Inr pop \<longrightarrow>
            pop = [length (heap s)] \<and>
            (\<exists>vals.
               length vals = length (where_le (map (\<lambda>i. frac (rng s i))
                 [0..<length (genes (heap s ! a))]) prob) \<and>
               (\<forall>k < length vals. \<exists>z. vals ! k =
                  fnormal fl mu (step_size_used sigma alpha (hidden_genes (heap s ! a))) z) \<and>
               genes (heap s' ! length (heap s)) =
                 put (genes (heap s ! a))
                   (where_le (map (\<lambda>i. frac (rng s i)) [0..<length (genes (heap s ! a))]) prob)
                   (map2 (fadd fl)
                      (take_at (genes (heap s ! a))
                         (where_le (map (\<lambda>i. frac (rng s i))
                            [0..<length (genes (heap s ! a))]) prob)) vals)) \<and>
            (case alpha of
               None \<Rightarrow> hidden_genes (heap s' ! length (heap s)) = hidden_genes (heap s ! a)
             | Some al \<Rightarrow>
                 \<not> fis_zero fl al \<and> hidden_genes (heap s ! a) \<noteq> [] \<and>
                 (\<exists>f. (f = al \<or> f = fdiv fl (fone fl) al) \<and>
                    hidden_genes (heap s' ! length (heap s)) =
                      (hidden_genes (heap s ! a))
                        [0 := fmul fl (hidden_genes (heap s ! a) ! 0) f])))"
proof -
  let ?L = "length (heap s)"
  let ?x = "heap s ! a"
  let ?g = "genes ?x"
  let ?hits = "where_le (map (\<lambda>i. frac (rng s i)) [0..<length ?g]) prob"
  let ?s2 = "advance (length ?g) (s\<lparr>heap := heap s @ [?x]\<rparr>)"
  have h2: "heap ?s2 = heap s @ [?x]" by simp
  have L2: "?L < length (heap ?s2)" by simp
  obtain r3 s3 where st: "NormalDist_step_size fl sigma alpha ?L ?s2 = (r3, s3)"
    by (cases "NormalDist_step_size fl sigma alpha ?L ?s2") auto
  from step_size_frame [OF st L2]
  have len3: "length (heap s3) = Suc ?L"
    and oth3: "\<forall>b. b \<noteq> ?L \<longrightarrow> heap s3 ! b = (heap s @ [?x]) ! b"
    and gen3: "genes (heap s3 ! ?L) = ?g"
    by simp_all
  have frame3: "take ?L (heap s3) = heap s"
    using len3 oth3 by (rule take_frame) simp
  show ?thesis
  proof (cases r3)
    case (Inl e)
    with run a st have "r = Inl e" "s' = s3"
      by (simp_all add: NormalDist_unfold Let_def)
    with len3 frame3 show ?thesis by simp
  next
    case (Inr sg)
    have sg: "sg = step_size_used sigma alpha (hidden_genes ?x)"
    proof (cases alpha)
      case None
      with st Inr show ?thesis by (auto simp add: step_size_None step_size_used_def)
    next
      case (Some al)
      from step_size_Some_Inr [OF st [unfolded Some Inr]] show ?thesis
        by (simp add: Some step_size_used_def)
    qed
    have hid3: "case alpha of
               None \<Rightarrow> hidden_genes (heap s3 ! ?L) = hidden_genes ?x
             | Some al \<Rightarrow>
                 \<not> fis_zero fl al \<and> hidden_genes ?x \<noteq> [] \<and>
                 (\<exists>f. (f = al \<or> f = fdiv fl (fone fl) al) \<and>
                    hidden_genes (heap s3 ! ?L) =
                      (hidden_genes ?x)[0 := fmul fl (hidden_genes ?x ! 0) f])"
    proof (cases alpha)
      case None
      with st show ?thesis by (auto simp add: step_size_None)
    next
      case (Some al)
      from step_size_Some_Inr [OF st [unfolded Some Inr]] show ?thesis
        by (auto simp add: Some set_hidden_genes_def)
    qed
    obtain r4 s4 where nm: "normal fl mu sg (length ?hits) s3 = (r4, s4)"
      by (cases "normal fl mu sg (length ?hits) s3") auto
    from heap_normal [OF nm] have h4: "heap s4 = heap s3" .
    show ?thesis
    proof (cases r4)
      case (Inl e)
      with run a st Inr nm have "r = Inl e" "s' = s4"
        by (simp_all add: NormalDist_unfold Let_def)
      with len3 frame3 h4 show ?thesis by simp
    next
      case vals: (Inr vals)
      let ?new = "put ?g ?hits (map2 (fadd fl) (take_at ?g ?hits) vals)"
      from normal_Inr [OF nm [unfolded vals]]
      have vlen: "length vals = length ?hits"
        and vz: "\<forall>k < length vals. \<exists>z. vals ! k = fnormal fl mu sg z"
        by auto
      from run a st Inr nm vals have r: "r = Inr [?L]"
        and s': "s' = set_genes ?L (put (genes (heap s4 ! ?L)) ?hits
                 (map2 (fadd fl) (take_at (genes (heap s4 ! ?L)) ?hits) vals)) s4"
        by (simp_all add: NormalDist_unfold Let_def)
      have hs': "heap s' = (heap s3)[?L := (heap s3 ! ?L)\<lparr>genes := ?new\<rparr>]"
        by (simp add: s' set_genes_def h4 gen3)
      have len': "length (heap s') = Suc ?L" by (simp add: hs' len3)
      have "\<forall>b. b \<noteq> ?L \<longrightarrow> heap s' ! b = (heap s @ [?x]) ! b"
        using oth3 by (simp add: hs')
      with len' have frame': "take ?L (heap s') = heap s"
        by (rule take_frame) simp
      have new: "heap s' ! ?L = (heap s3 ! ?L)\<lparr>genes := ?new\<rparr>"
        by (simp add: hs' len3)
      have gnew: "genes (heap s' ! ?L) = ?new" by (simp add: new)
      have hnew: "hidden_genes (heap s' ! ?L) = hidden_genes (heap s3 ! ?L)"
        by (simp add: new)
      have "\<exists>vals. length vals = length ?hits \<and>
               (\<forall>k < length vals. \<exists>z. vals ! k =
                  fnormal fl mu (step_size_used sigma alpha (hidden_genes ?x)) z) \<and>
               genes (heap s' ! ?L) = put ?g ?hits (map2 (fadd fl) (take_at ?g ?hits) vals)"
        using vlen vz gnew sg by blast
      then show ?thesis
        using len' frame' r hid3 hnew by (simp split: option.splits)
    qed
  qed
qed

lemma NormalDist_returns:
  assumes a: "a < length (heap s)"
    and ok: "case alpha of None \<Rightarrow> \<not> fnegative fl sigma
             | Some al \<Rightarrow> \<not> fis_zero fl al \<and> hidden_genes (heap s ! a) \<noteq> [] \<and>
                 \<not> fnegative fl (hidden_genes (heap s ! a) ! 0)"
  shows "\<exists>s'. NormalDist_process_population fl prob mu sigma alpha [a] s =
                (Inr [length (heap s)], s')"
proof (cases alpha)
  case None
  with a ok show ?thesis
    by (simp add: NormalDist_unfold Let_def step_size_None normal_def)
next
  case (Some al)
  let ?s2 = "advance (length (genes (heap s ! a))) (s\<lparr>heap := heap s @ [heap s ! a]\<rparr>)"
  from ok Some have al: "\<not> fis_zero fl al"
    and ne: "hidden_genes (heap ?s2 ! length (heap s)) \<noteq> []"
    and nn: "\<not> fnegative fl (hidden_genes (heap ?s2 ! length (heap s)) ! 0)"
    by simp_all
  from step_size_Some_returns [OF al ne, of sigma] obtain s3 where
    "NormalDist_step_size fl sigma (Some al) (length (heap s)) ?s2 =
       (Inr (hidden_genes (heap ?s2 ! length (heap s)) ! 0), s3)" by blast
  with a Some nn show ?thesis
    by (simp add: NormalDist_unfold Let_def normal_def)
qed

lemma NormalDist_repeat_Inr:
  "a < length (heap s) \<Longrightarrow>
   NormalDist_repeat n fl prob mu sigma (Some al) [a] s = (Inr pop, s') \<Longrightarrow>
   \<exists>b fs. pop = [b] \<and> b < length (heap s') \<and> length fs = n \<and>
     set fs \<subseteq> {al, fdiv fl (fone fl) al} \<and>
     hidden_genes (heap s' ! b) ! 0 = foldl (fmul fl) (hidden_genes (heap s ! a) ! 0) fs"
proof (induction n arbitrary: a s)
  case 0
  then have "pop = [a] \<and> a < length (heap s') \<and> length ([]::'a list) = 0 \<and>
     set [] \<subseteq> {al, fdiv fl (fone fl) al} \<and>
     hidden_genes (heap s' ! a) ! 0 = foldl (fmul fl) (hidden_genes (heap s ! a) ! 0) []"
    by simp
  then show ?case by blast
next
  case (Suc n)
  obtain r1 s1 where
    run1: "NormalDist_process_population fl prob mu sigma (Some al) [a] s = (r1, s1)"
    by (cases "NormalDist_process_population fl prob mu sigma (Some al) [a] s") auto
  with Suc.prems(2) obtain pop1 where r1: "r1 = Inr pop1"
    by (cases r1) auto
  from NormalDist_outcome [OF Suc.prems(1) run1] r1
  obtain f where pop1: "pop1 = [length (heap s)]"
    and len1: "length (heap s1) = Suc (length (heap s))"
    and ne: "hidden_genes (heap s ! a) \<noteq> []"
    and f: "f = al \<or> f = fdiv fl (fone fl) al"
    and hid: "hidden_genes (heap s1 ! length (heap s)) =
               (hidden_genes (heap s ! a))[0 := fmul fl (hidden_genes (heap s ! a) ! 0) f]"
    by auto
  from ne hid have step: "hidden_genes (heap s1 ! length (heap s)) ! 0 =
      fmul fl (hidden_genes (heap s ! a) ! 0) f" by simp
  from Suc.prems(2) run1 r1 pop1
  have rest: "NormalDist_repeat n fl prob mu sigma (Some al) [length (heap s)] s1 = (Inr pop, s')"
    by simp
  have "length (heap s) < length (heap s1)" using len1 by simp
  from Suc.IH [OF this rest] obtain b fs where
    b: "pop = [b]" "b < length (heap s')" "length fs = n"
      "set fs \<subseteq> {al, fdiv fl (fone fl) al}"
    and prod: "hidden_genes (heap s' ! b) ! 0 =
                 foldl (fmul fl) (hidden_genes (heap s1 ! length (heap s)) ! 0) fs"
    by blast
  from b f have "pop = [b] \<and> b < length (heap s') \<and> length (f # fs) = Suc n \<and>
     set (f # fs) \<subseteq> {al, fdiv fl (fone fl) al} \<and>
     hidden_genes (heap s' ! b) ! 0 =
       foldl (fmul fl) (hidden_genes (heap s ! a) ! 0) (f # fs)"
    by (auto simp add: prod step)
  then show ?case by blast
qed

lemma NormalDist_repeat_returns:
  assumes mul: "\<forall>x y. \<not> fnegative fl x \<and> \<not> fnegative fl y \<longrightarrow> \<not> fnegative fl (fmul fl x y)"
    and al: "\<not> fis_zero fl al" "\<not> fnegative fl al" "\<not> fnegative fl (fdiv fl (fone fl) al)"
  shows "a < length (heap s) \<Longrightarrow> hidden_genes (heap s ! a) \<noteq> [] \<Longrightarrow>
   \<not> fnegative fl (hidden_genes (heap s ! a) ! 0) \<Longrightarrow>
   \<exists>pop s'. NormalDist_repeat n fl prob mu sigma (Some al) [a] s = (Inr pop, s')"
proof (induction n arbitrary: a s)
  case 0
  show ?case by simp
next
  case (Suc n)
  have ok: "case Some al of None \<Rightarrow> \<not> fnegative fl sigma
             | Some al \<Rightarrow> \<not> fis_zero fl al \<and> hidden_genes (heap s ! a) \<noteq> [] \<and>
                 \<not> fnegative fl (hidden_genes (heap s ! a) ! 0)"
    using Suc.prems al by simp
  from NormalDist_returns [OF Suc.prems(1) ok] obtain s1 where
    run1: "NormalDist_process_population fl prob mu sigma (Some al) [a] s =
             (Inr [length (heap s)], s1)"
    by blast
  from NormalDist_outcome [OF Suc.prems(1) run1]
  obtain f where len1: "length (heap s1) = Suc (length (heap s))"
    and f: "f = al \<or> f = fdiv fl (fone fl) al"
    and hid: "hidden_genes (heap s1 ! length (heap s)) =
               (hidden_genes (heap s ! a))[0 := fmul fl (hidden_genes (heap s ! a) ! 0) f]"
    by auto
  from f al have fpos: "\<not> fnegative fl f" by auto
  have a1: "length (heap s) < length (heap s1)" using len1 by simp
  have ne1: "hidden_genes (heap s1 ! length (heap s)) \<noteq> []"
    using hid Suc.prems(2) by simp
  have nn1: "\<not> fnegative fl (hidden_genes (heap s1 ! length (heap s)) ! 0)"
    using hid Suc.prems(2,3) fpos mul by simp
  from Suc.IH [OF a1 ne1 nn1] run1 show ?case by simp
qed

text \<open>
  C9 (as the code has it).  With alpha = None a call of NormalDist alters no hidden
  gene: those of the input individual are as before in every outcome, and the individual
  returned has the same hidden genes; the call returns when sigma is not negative.
  With alpha set, whenever \<open>n\<close> successive applications return, the step size stored in
  the last individual results from the step size stored in the first one by \<open>n\<close>
  successive float multiplications, each by a factor that is alpha or 1/alpha; the
  applications do return when alpha is neither zero nor negative, the first individual
  stores a non-negative step size, and float multiplication keeps non-negative operands
  non-negative.
\<close>

theorem NormalDist_hidden_genes:
  assumes a: "a < length (heap s)"
  shows "(\<forall>r s'. NormalDist_process_population fl prob mu sigma None [a] s = (r, s') \<longrightarrow>
            hidden_genes (heap s' ! a) = hidden_genes (heap s ! a) \<and>
            (\<forall>pop. r = Inr pop \<longrightarrow> pop = [length (heap s)] \<and>
               hidden_genes (heap s' ! length (heap s)) = hidden_genes (heap s ! a))) \<and>
         (\<not> fnegative fl sigma \<longrightarrow>
            (\<exists>s'. NormalDist_process_population fl prob mu sigma None [a] s =
                    (Inr [length (heap s)], s'))) \<and>
         (\<forall>pop s'. NormalDist_repeat n fl prob mu sigma (Some al) [a] s = (Inr pop, s') \<longrightarrow>
            (\<exists>b fs. pop = [b] \<and> b < length (heap s') \<and> length fs = n \<and>
               set fs \<subseteq> {al, fdiv fl (fone fl) al} \<and>
               hidden_genes (heap s' ! b) ! 0 =
                 foldl (fmul fl) (hidden_genes (heap s ! a) ! 0) fs)) \<and>
         ((\<forall>x y. \<not> fnegative fl x \<and> \<not> fnegative fl y \<longrightarrow> \<not> fnegative fl (fmul fl x y)) \<and>
          \<not> fis_zero fl al \<and> \<not> fnegative fl al \<and> \<not> fnegative fl (fdiv fl (fone fl) al) \<and>
          hidden_genes (heap s ! a) \<noteq> [] \<and> \<not> fnegative fl (hidden_genes (heap s ! a) ! 0) \<longrightarrow>
            (\<exists>pop s'. NormalDist_repeat n fl prob mu sigma (Some al) [a] s = (Inr pop, s')))"
proof (intro conjI allI impI)
  fix r s'
  assume run: "NormalDist_process_population fl prob mu sigma None [a] s = (r, s')"
  from NormalDist_outcome [OF a run]
  have fr: "take (length (heap s)) (heap s') = heap s"
    and res: "\<forall>pop. r = Inr pop \<longrightarrow> pop = [length (heap s)] \<and>
               hidden_genes (heap s' ! length (heap s)) = hidden_genes (heap s ! a)"
    by simp_all
  have "heap s' ! a = take (length (heap s)) (heap s') ! a" using a by simp
  then show "hidden_genes (heap s' ! a) = hidden_genes (heap s ! a)" by (simp add: fr)
  fix pop
  assume "r = Inr pop"
  with res show "pop = [length (heap s)]"
    and "hidden_genes (heap s' ! length (heap s)) = hidden_genes (heap s ! a)"
    by simp_all
next
  assume "\<not> fnegative fl sigma"
  then have "case None of None \<Rightarrow> \<not> fnegative fl sigma
             | Some al \<Rightarrow> \<not> fis_zero fl al \<and> hidden_genes (heap s ! a) \<noteq> [] \<and>
                 \<not> fnegative fl (hidden_genes (heap s ! a) ! 0)" by simp
  from NormalDist_returns [OF a this]
  show "\<exists>s'. NormalDist_process_population fl prob mu sigma None [a] s =
              (Inr [length (heap s)], s')" .
next
  fix pop s'
  assume "NormalDist_repeat n fl prob mu sigma (Some al) [a] s = (Inr pop, s')"
  from NormalDist_repeat_Inr [OF a this]
  show "\<exists>b fs. pop = [b] \<and> b < length (heap s') \<and> length fs = n \<and>
               set fs \<subseteq> {al, fdiv fl (fone fl) al} \<and>
               hidden_genes (heap s' ! b) ! 0 =
                 foldl (fmul fl) (hidden_genes (heap s ! a) ! 0) fs" .
next
  assume h: "(\<forall>x y. \<not> fnegative fl x \<and> \<not> fnegative fl y \<longrightarrow> \<not> fnegative fl (fmul fl x y)) \<and>
          \<not> fis_zero fl al \<and> \<not> fnegative fl al \<and> \<not> fnegative fl (fdiv fl (fone fl) al) \<and>
          hidden_genes (heap s ! a) \<noteq> [] \<and> \<not> fnegative fl (hidden_genes (heap s ! a) ! 0)"
  then have mul: "\<forall>x y. \<not> fnegative fl x \<and> \<not> fnegative fl y \<longrightarrow> \<not> fnegative fl (fmul fl x y)"
    and al: "\<not> fis_zero fl al" "\<not> fnegative fl al" "\<not> fnegative fl (fdiv fl (fone fl) al)"
    and h0: "hidden_genes (heap s ! a) \<noteq> []" "\<not> fnegative fl (hidden_genes (heap s ! a) ! 0)"
    by blast+
  from NormalDist_repeat_returns [OF mul al a h0]
  show "\<exists>pop s'. NormalDist_repeat n fl prob mu sigma (Some al) [a] s = (Inr pop, s')" .
qed

lemma exact_ops_simps:
  "fadd exact_ops = (+)" "fsub exact_ops = (-)" "fmul exact_ops = (*)" "fdiv exact_ops = (/)"
  "fone exact_ops = 1" "fis_zero exact_ops x \<longleftrightarrow> x = 0" "fnegative exact_ops x \<longleftrightarrow> x < 0"
  "of_sample exact_ops u = u" "fnormal exact_ops loc scale r = loc + scale * r"
  by (simp_all add: exact_ops_def)

theorem NormalDist_hidden_genes_witness:
  "0 < length (heap example_reals) \<and> \<not> fnegative exact_ops (1::real) \<and>
   \<not> fis_zero exact_ops 2 \<and> \<not> fnegative exact_ops 2 \<and>
   \<not> fnegative exact_ops (fdiv exact_ops (fone exact_ops) 2) \<and>
   hidden_genes (heap example_reals ! 0) \<noteq> [] \<and>
   \<not> fnegative exact_ops (hidden_genes (heap example_reals ! 0) ! 0) \<and>
   (\<exists>s'. NormalDist_process_population exact_ops 0 0 1 None [0] example_reals =
           (Inr [length (heap example_reals)], s')) \<and>
   (\<exists>pop s'. NormalDist_repeat 2 exact_ops 0 0 1 (Some 2) [0] example_reals = (Inr pop, s') \<and>
      (\<exists>b fs. pop = [b] \<and> b < length (heap s') \<and> length fs = 2 \<and>
         set fs \<subseteq> {2, fdiv exact_ops (fone exact_ops) 2} \<and>
         hidden_genes (heap s' ! b) ! 0 =
           foldl (fmul exact_ops) (hidden_genes (heap example_reals ! 0) ! 0) fs))"
proof -
  have a: "0 < length (heap example_reals)"
    by (simp add: example_reals_def fresh_world_def)
  have sg: "\<not> fnegative exact_ops (1::real)"
    by (simp add: exact_ops_simps)
  have mul: "\<forall>x y. \<not> fnegative exact_ops x \<and> \<not> fnegative exact_ops y \<longrightarrow>
      \<not> fnegative exact_ops (fmul exact_ops x y)"
    by (simp add: exact_ops_simps not_less)
  have ok: "\<not> fis_zero exact_ops 2 \<and> \<not> fnegative exact_ops 2 \<and>
      \<not> fnegative exact_ops (fdiv exact_ops (fone exact_ops) 2) \<and>
      hidden_genes (heap example_reals ! 0) \<noteq> [] \<and>
      \<not> fnegative exact_ops (hidden_genes (heap example_reals ! 0) ! 0)"
    by (simp add: exact_ops_simps example_reals_def fresh_world_def)
  note inst = NormalDist_hidden_genes
    [OF a, where fl = exact_ops and prob = 0 and mu = 0 and sigma = 1 and al = 2 and n = 2]
  from inst sg have one:
    "\<exists>s'. NormalDist_process_population exact_ops 0 0 1 None [0] example_reals =
           (Inr [length (heap example_reals)], s')"
    by blast
  from inst mul ok obtain pop s' where
    run: "NormalDist_repeat 2 exact_ops 0 0 1 (Some 2) [0] example_reals = (Inr pop, s')"
    by blast
  with inst have "\<exists>b fs. pop = [b] \<and> b < length (heap s') \<and> length fs = 2 \<and>
      set fs \<subseteq> {2, fdiv exact_ops (fone exact_ops) 2} \<and>
      hidden_genes (heap s' ! b) ! 0 =
        foldl (fmul exact_ops) (hidden_genes (heap example_reals ! 0) ! 0) fs"
    by blast
  with run a sg ok one show ?thesis by blast
qed

text \<open>
  C9 as stated fails when the stored step size is not 1 at the start: one call with
  alpha = 2 on an individual that stores the step size 3 leaves the step size 6, which
  is not a product of one factor out of 2 and 1/2.  (On these values, 3, 2 and 1/2,
  doubles compute exactly.)
\<close>

theorem NormalDist_step_size_scales_initial:
  "hidden_genes (heap example_reals ! 0) = [3] \<and>
   fst (NormalDist_repeat 1 exact_ops 0 0 1 (Some 2) [0] example_reals) = Inr [1] \<and>
   hidden_genes
     (heap (snd (NormalDist_repeat 1 exact_ops 0 0 1 (Some 2) [0] example_reals)) ! 1) ! 0 = 6 \<and>
   (6::real) \<noteq> 2 \<and> (6::real) \<noteq> 1 / 2"
  by (simp add: example_reals_def fresh_world_def exact_ops_simps
      NormalDist_process_population_def NormalDist_step_size_def
      choice_def normal_def draw_int_def where_le_def put_def take_at_def
      set_hidden_genes_def Population_getitem_def Individual_copy_def random_sample_n_def
      advance_def set_genes_def Let_def)

section \<open>Mutation copies its input\<close>

text \<open>
  Every individual that existed before a call is as it was after the call.
\<close>

definition originals_unchanged :: "('g, 'f) world \<Rightarrow> ('g, 'f) world \<Rightarrow> bool" where
  "originals_unchanged s s' \<longleftrightarrow> take (length (heap s)) (heap s') = heap s"

text \<open>
  A call on the individual at address \<open>a\<close> hands back exactly one individual, stored at
  an address that did not exist before, which is the input individual's copy after the
  mutation: it has as many genes; a gene that the Bernoulli trial did not select has the
  input's value; a selected gene is related to the input's value by the operator's rule
  \<open>gene_rule\<close>; and the hidden genes are related to the input's by \<open>hidden_rule\<close>.
\<close>

definition returns_mutated_copy ::
  "('g \<Rightarrow> 'g \<Rightarrow> bool) \<Rightarrow> ('f list \<Rightarrow> 'f list \<Rightarrow> bool) \<Rightarrow> real \<Rightarrow> addr \<Rightarrow> ('g, 'f) world \<Rightarrow>
   (error + population) \<times> ('g, 'f) world \<Rightarrow> bool" where
  "returns_mutated_copy gene_rule hidden_rule prob a s out \<longleftrightarrow>
     fst out = Inr [length (heap s)] \<and>
     length (heap (snd out)) = Suc (length (heap s)) \<and>
     length (genes (heap (snd out) ! length (heap s))) = length (genes (heap s ! a)) \<and>
     (\<forall>i < length (genes (heap s ! a)).
        (frac (rng s i) \<le> prob \<longrightarrow>
           gene_rule (genes (heap s ! a) ! i) (genes (heap (snd out) ! length (heap s)) ! i)) \<and>
        (\<not> frac (rng s i) \<le> prob \<longrightarrow>
           genes (heap (snd out) ! length (heap s)) ! i = genes (heap s ! a) ! i)) \<and>
     hidden_rule (hidden_genes (heap s ! a)) (hidden_genes (heap (snd out) ! length (heap s)))"

lemma originals_unchanged_nth:
  assumes "originals_unchanged s s'" and "a < length (heap s)"
  shows "heap s' ! a = heap s ! a"
proof -
  have "heap s' ! a = take (length (heap s)) (heap s') ! a" using assms(2) by simp
  with assms(1) show ?thesis by (simp add: originals_unchanged_def)
qed

lemma BitFlip_copy:
  assumes "a < length (heap s)"
  shows "originals_unchanged s (snd (BitFlip_process_population prob [a] s)) \<and>
         returns_mutated_copy (\<lambda>old new. new = (\<not> old)) (\<lambda>h h'. h' = h) prob a s
           (BitFlip_process_population prob [a] s)"
  using assms by (simp add: BitFlip_result originals_unchanged_def returns_mutated_copy_def)

lemma UniformInt_frame:
  assumes a: "a < length (heap s)"
  shows "originals_unchanged s (snd (UniformInt_process_population prob lowest highest [a] s))"
proof -
  obtain r s' where run: "UniformInt_process_population prob lowest highest [a] s = (r, s')"
    by (cases "UniformInt_process_population prob lowest highest [a] s") auto
  show ?thesis
  proof (cases r)
    case (Inl e)
    let ?g = "genes (heap s ! a)"
    let ?hits = "where_le (map (\<lambda>i. frac (rng s i)) [0..<length ?g]) prob"
    let ?s2 = "advance (length ?g) (s\<lparr>heap := heap s @ [heap s ! a]\<rparr>)"
    obtain r3 s3 where r3: "randint lowest (highest + 1) (length ?hits) ?s2 = (r3, s3)"
      by (cases "randint lowest (highest + 1) (length ?hits) ?s2") auto
    with run a Inl have "s' = s3"
      by (cases r3) (auto simp add: UniformInt_unfold Let_def)
    with heap_randint [OF r3] run show ?thesis
      by (simp add: originals_unchanged_def)
  next
    case (Inr pop)
    from UniformInt_Inr [OF a run [unfolded Inr]] run show ?thesis
      by (auto simp add: originals_unchanged_def)
  qed
qed

lemma UniformInt_copy:
  assumes a: "a < length (heap s)"
    and ret: "\<not> isl (fst (UniformInt_process_population prob lowest highest [a] s))"
  shows "returns_mutated_copy (\<lambda>old new. lowest \<le> new \<and> new \<le> highest) (\<lambda>h h'. h' = h) prob a s
           (UniformInt_process_population prob lowest highest [a] s)"
proof -
  let ?g = "genes (heap s ! a)"
  let ?us = "map (\<lambda>i. frac (rng s i)) [0..<length ?g]"
  let ?hits = "where_le ?us prob"
  obtain r s' where run: "UniformInt_process_population prob lowest highest [a] s = (r, s')"
    by (cases "UniformInt_process_population prob lowest highest [a] s") auto
  with ret obtain pop where r: "r = Inr pop" by (cases r) auto
  from UniformInt_Inr [OF a run [unfolded r]] obtain vals where
    pop: "pop = [length (heap s)]" and len: "length vals = length ?hits"
    and rng: "\<forall>v \<in> set vals. lowest \<le> v \<and> v \<le> highest"
    and hp: "heap s' = heap s @ [(heap s ! a)\<lparr>genes := put ?g ?hits vals\<rparr>]"
    by blast
  have new: "genes (heap s' ! length (heap s)) = put ?g ?hits vals"
    "hidden_genes (heap s' ! length (heap s)) = hidden_genes (heap s ! a)"
    by (simp_all add: hp)
  have "(frac (rng s i) \<le> prob \<longrightarrow>
           lowest \<le> put ?g ?hits vals ! i \<and> put ?g ?hits vals ! i \<le> highest) \<and>
        (\<not> frac (rng s i) \<le> prob \<longrightarrow> put ?g ?hits vals ! i = ?g ! i)" if i: "i < length ?g" for i
  proof -
    from i have u: "?us ! i = frac (rng s i)" by simp
    from put_where_le [OF len i, of] have
      sel: "?us ! i \<le> prob \<longrightarrow> (\<exists>k < length vals. put ?g ?hits vals ! i = vals ! k)"
      and uns: "\<not> ?us ! i \<le> prob \<longrightarrow> put ?g ?hits vals ! i = ?g ! i"
      by auto
    show ?thesis
    proof (cases "frac (rng s i) \<le> prob")
      case True
      with sel u obtain k where "k < length vals" "put ?g ?hits vals ! i = vals ! k" by auto
      then have "put ?g ?hits vals ! i \<in> set vals" by simp
      with rng True show ?thesis by auto
    next
      case False
      with uns u show ?thesis by simp
    qed
  qed
  with run r pop hp new show ?thesis
    by (simp add: returns_mutated_copy_def put_length)
qed

lemma UniformFloat_result:
  assumes "a < length (heap s)"
  shows "fst (UniformFloat_process_population fl prob lowest highest [a] s) =
           Inr [length (heap s)] \<and>
         heap (snd (UniformFloat_process_population fl prob lowest highest [a] s)) =
           heap s @ [(heap s ! a)\<lparr>genes :=
             put (genes (heap s ! a))
               (where_le (map (\<lambda>i. frac (rng s i)) [0..<length (genes (heap s ! a))]) prob)
               (map (\<lambda>v. fadd fl (fmul fl (fsub fl highest lowest) (of_sample fl v)) lowest)
                  (map (\<lambda>i. frac (rng s (length (genes (heap s ! a)) + i)))
                     [0..<length (where_le (map (\<lambda>i. frac (rng s i))
                        [0..<length (genes (heap s ! a))]) prob)]))\<rparr>]"
  using assms
  by (simp add: UniformFloat_process_population_def Population_getitem_def Individual_copy_def
      random_sample_n_def Let_def advance_def set_genes_def)

lemma UniformFloat_copy:
  assumes a: "a < length (heap s)"
  shows "originals_unchanged s
           (snd (UniformFloat_process_population fl prob lowest highest [a] s)) \<and>
         returns_mutated_copy
           (\<lambda>old new. \<exists>v. 0 \<le> v \<and> v < 1 \<and>
              new = fadd fl (fmul fl (fsub fl highest lowest) (of_sample fl v)) lowest)
           (\<lambda>h h'. h' = h) prob a s
           (UniformFloat_process_population fl prob lowest highest [a] s)"
proof -
  let ?g = "genes (heap s ! a)"
  let ?us = "map (\<lambda>i. frac (rng s i)) [0..<length ?g]"
  let ?hits = "where_le ?us prob"
  let ?f = "\<lambda>v. fadd fl (fmul fl (fsub fl highest lowest) (of_sample fl v)) lowest"
  let ?vals = "map ?f (map (\<lambda>i. frac (rng s (length ?g + i))) [0..<length ?hits])"
  have len: "length ?vals = length ?hits" by simp
  have "(frac (rng s i) \<le> prob \<longrightarrow>
           (\<exists>v. 0 \<le> v \<and> v < 1 \<and> put ?g ?hits ?vals ! i = ?f v)) \<and>
        (\<not> frac (rng s i) \<le> prob \<longrightarrow> put ?g ?hits ?vals ! i = ?g ! i)" if i: "i < length ?g" for i
  proof -
    from i have u: "?us ! i = frac (rng s i)" by simp
    from put_where_le [OF len i, of] have
      sel: "?us ! i \<le> prob \<longrightarrow> (\<exists>k < length ?vals. put ?g ?hits ?vals ! i = ?vals ! k)"
      and uns: "\<not> ?us ! i \<le> prob \<longrightarrow> put ?g ?hits ?vals ! i = ?g ! i"
      by auto
    show ?thesis
    proof (cases "frac (rng s i) \<le> prob")
      case True
      with sel u obtain k where k: "k < length ?hits" "put ?g ?hits ?vals ! i = ?vals ! k"
        by auto
      then have "put ?g ?hits ?vals ! i = ?f (frac (rng s (length ?g + k)))" by simp
      moreover have "0 \<le> frac (rng s (length ?g + k)) \<and> frac (rng s (length ?g + k)) < 1"
        by (simp add: frac_lt_1)
      ultimately have "0 \<le> frac (rng s (length ?g + k)) \<and> frac (rng s (length ?g + k)) < 1 \<and>
          put ?g ?hits ?vals ! i = ?f (frac (rng s (length ?g + k)))"
        by simp
      then have "\<exists>v. 0 \<le> v \<and> v < 1 \<and> put ?g ?hits ?vals ! i = ?f v"
        by (rule exI)
      with True show ?thesis by simp
    next
      case False
      with uns u show ?thesis by simp
    qed
  qed
  then have sel: "\<forall>i < length ?g.
        (frac (rng s i) \<le> prob \<longrightarrow> (\<exists>v. 0 \<le> v \<and> v < 1 \<and> put ?g ?hits ?vals ! i = ?f v)) \<and>
        (\<not> frac (rng s i) \<le> prob \<longrightarrow> put ?g ?hits ?vals ! i = ?g ! i)"
    by blast
  from UniformFloat_result [OF a, of fl prob lowest highest]
  have res: "fst (UniformFloat_process_population fl prob lowest highest [a] s) =
               Inr [length (heap s)]"
    and hp: "heap (snd (UniformFloat_process_population fl prob lowest highest [a] s)) =
               heap s @ [(heap s ! a)\<lparr>genes := put ?g ?hits ?vals\<rparr>]"
    by blast+
  have new: "heap (snd (UniformFloat_process_population fl prob lowest highest [a] s)) !
               length (heap s) = (heap s ! a)\<lparr>genes := put ?g ?hits ?vals\<rparr>"
    by (simp only: hp nth_append_length)
  have "originals_unchanged s
          (snd (UniformFloat_process_population fl prob lowest highest [a] s))"
    by (simp only: originals_unchanged_def hp) simp
  moreover have "returns_mutated_copy
           (\<lambda>old new. \<exists>v. 0 \<le> v \<and> v < 1 \<and>
              new = fadd fl (fmul fl (fsub fl highest lowest) (of_sample fl v)) lowest)
           (\<lambda>h h'. h' = h) prob a s
           (UniformFloat_process_population fl prob lowest highest [a] s)"
    unfolding returns_mutated_copy_def new
    using res sel by (simp add: hp put_length del: map_map)
  ultimately show ?thesis by blast
qed

lemma NormalDist_frame:
  assumes a: "a < length (heap s)"
  shows "originals_unchanged s
           (snd (NormalDist_process_population fl prob mu sigma alpha [a] s))"
proof -
  obtain r s' where run: "NormalDist_process_population fl prob mu sigma alpha [a] s = (r, s')"
    by (cases "NormalDist_process_population fl prob mu sigma alpha [a] s") auto
  from NormalDist_outcome [OF a run] run show ?thesis
    by (simp add: originals_unchanged_def)
qed

lemma NormalDist_copy:
  assumes a: "a < length (heap s)"
    and ret: "\<not> isl (fst (NormalDist_process_population fl prob mu sigma alpha [a] s))"
  shows "returns_mutated_copy
           (\<lambda>old new. \<exists>z. new = fadd fl old
              (fnormal fl mu (step_size_used sigma alpha (hidden_genes (heap s ! a))) z))
           (\<lambda>h h'. case alpha of None \<Rightarrow> h' = h
              | Some al \<Rightarrow> \<exists>f. (f = al \<or> f = fdiv fl (fone fl) al) \<and>
                  h' = h[0 := fmul fl (h ! 0) f])
           prob a s (NormalDist_process_population fl prob mu sigma alpha [a] s)"
proof -
  let ?g = "genes (heap s ! a)"
  let ?us = "map (\<lambda>i. frac (rng s i)) [0..<length ?g]"
  let ?hits = "where_le ?us prob"
  let ?sg = "step_size_used sigma alpha (hidden_genes (heap s ! a))"
  obtain r s' where run: "NormalDist_process_population fl prob mu sigma alpha [a] s = (r, s')"
    by (cases "NormalDist_process_population fl prob mu sigma alpha [a] s") auto
  with ret obtain pop where r: "r = Inr pop" by (cases r) auto
  from NormalDist_outcome [OF a run] r obtain vals where
    pop: "pop = [length (heap s)]"
    and lh: "length (heap s') = Suc (length (heap s))"
    and len: "length vals = length ?hits"
    and vz: "\<forall>k < length vals. \<exists>z. vals ! k = fnormal fl mu ?sg z"
    and gn: "genes (heap s' ! length (heap s)) =
               put ?g ?hits (map2 (fadd fl) (take_at ?g ?hits) vals)"
    and hid: "case alpha of
               None \<Rightarrow> hidden_genes (heap s' ! length (heap s)) = hidden_genes (heap s ! a)
             | Some al \<Rightarrow>
                 \<not> fis_zero fl al \<and> hidden_genes (heap s ! a) \<noteq> [] \<and>
                 (\<exists>f. (f = al \<or> f = fdiv fl (fone fl) al) \<and>
                    hidden_genes (heap s' ! length (heap s)) =
                      (hidden_genes (heap s ! a))
                        [0 := fmul fl (hidden_genes (heap s ! a) ! 0) f])"
    by auto
  let ?vals = "map2 (fadd fl) (take_at ?g ?hits) vals"
  have len2: "length ?vals = length ?hits" using len by (simp add: take_at_def)
  have "(frac (rng s i) \<le> prob \<longrightarrow>
           (\<exists>z. put ?g ?hits ?vals ! i = fadd fl (?g ! i) (fnormal fl mu ?sg z))) \<and>
        (\<not> frac (rng s i) \<le> prob \<longrightarrow> put ?g ?hits ?vals ! i = ?g ! i)" if i: "i < length ?g" for i
  proof -
    from i have u: "?us ! i = frac (rng s i)" by simp
    from put_where_le [OF len2 i, of] have
      sel: "?us ! i \<le> prob \<longrightarrow>
              (\<exists>k < length ?vals. ?hits ! k = i \<and> put ?g ?hits ?vals ! i = ?vals ! k)"
      and uns: "\<not> ?us ! i \<le> prob \<longrightarrow> put ?g ?hits ?vals ! i = ?g ! i"
      by auto
    show ?thesis
    proof (cases "frac (rng s i) \<le> prob")
      case True
      with sel u obtain k where k: "k < length ?vals" "?hits ! k = i"
        "put ?g ?hits ?vals ! i = ?vals ! k"
        by auto
      with len2 len have "?vals ! k = fadd fl (?g ! i) (vals ! k)"
        by (simp add: take_at_def)
      moreover from k len2 len vz obtain z where "vals ! k = fnormal fl mu ?sg z" by auto
      ultimately have "put ?g ?hits ?vals ! i = fadd fl (?g ! i) (fnormal fl mu ?sg z)"
        using k by simp
      then have "\<exists>z. put ?g ?hits ?vals ! i = fadd fl (?g ! i) (fnormal fl mu ?sg z)"
        by (rule exI)
      with True show ?thesis by simp
    next
      case False
      with uns u show ?thesis by simp
    qed
  qed
  then have genes_ok: "\<forall>i < length ?g.
        (frac (rng s i) \<le> prob \<longrightarrow>
           (\<exists>z. genes (heap s' ! length (heap s)) ! i =
                    fadd fl (?g ! i) (fnormal fl mu ?sg z))) \<and>
        (\<not> frac (rng s i) \<le> prob \<longrightarrow> genes (heap s' ! length (heap s)) ! i = ?g ! i)"
    by (simp add: gn)
  have len_ok: "length (genes (heap s' ! length (heap s))) = length ?g"
    by (simp add: gn put_length)
  have hid_ok: "case alpha of
        None \<Rightarrow> hidden_genes (heap s' ! length (heap s)) = hidden_genes (heap s ! a)
      | Some al \<Rightarrow> \<exists>f. (f = al \<or> f = fdiv fl (fone fl) al) \<and>
          hidden_genes (heap s' ! length (heap s)) =
            (hidden_genes (heap s ! a))[0 := fmul fl (hidden_genes (heap s ! a) ! 0) f]"
    using hid by (cases alpha) auto
  from run r pop lh genes_ok len_ok hid_ok show ?thesis
    by (simp add: returns_mutated_copy_def)
qed

text \<open>
  C5.  For each of BitFlip, UniformInt, UniformFloat and NormalDist, applied to a batch
  holding one individual, on the spec's reading of \<^verbatim>\<open>Individual.copy\<close>: every individual
  that existed before the call, the input individual among them, has its genes and
  hidden genes unchanged after the call, whether the call returns or raises; and the
  call returns a Population holding one newly created individual, which is the copy of
  the input individual after the mutation.  Every gene that the Bernoulli trial did not
  select has the value of the input's gene, and the hidden genes are the input's (with
  the step size rescaled by NormalDist when alpha is set); a selected gene is the
  negated input gene (BitFlip), an integer of [lowest, highest] (UniformInt), a float
  \<open>(highest - lowest) * v + lowest\<close> for a sample \<open>v\<close> of [0, 1) (UniformFloat), or the
  input gene plus a normal deviate (NormalDist).  BitFlip and UniformFloat always
  return; UniformInt and NormalDist return whenever NumPy accepts their parameters
  (64-bit lowest \<le> highest; a step size that is not negative, alpha not zero and a
  stored step size present when alpha is set), and whenever they return the result is
  such a copy.
\<close>

theorem mutation_copy_on_write:
  assumes "ab < length (heap sb)" and "ai < length (heap si)" and "af < length (heap sf)"
  shows "originals_unchanged sb (snd (BitFlip_process_population prob [ab] sb)) \<and>
         returns_mutated_copy (\<lambda>old new. new = (\<not> old)) (\<lambda>h h'. h' = h) prob ab sb
           (BitFlip_process_population prob [ab] sb) \<and>
         originals_unchanged si (snd (UniformInt_process_population prob lowest highest [ai] si)) \<and>
         (int64_min \<le> lowest \<and> lowest \<le> highest \<and> highest \<le> int64_max \<longrightarrow>
            returns_mutated_copy (\<lambda>old new. lowest \<le> new \<and> new \<le> highest) (\<lambda>h h'. h' = h)
              prob ai si (UniformInt_process_population prob lowest highest [ai] si)) \<and>
         (\<not> isl (fst (UniformInt_process_population prob lowest highest [ai] si)) \<longrightarrow>
            returns_mutated_copy (\<lambda>old new. lowest \<le> new \<and> new \<le> highest) (\<lambda>h h'. h' = h)
              prob ai si (UniformInt_process_population prob lowest highest [ai] si)) \<and>
         originals_unchanged sf
           (snd (UniformFloat_process_population fl prob flowest fhighest [af] sf)) \<and>
         returns_mutated_copy
           (\<lambda>old new. \<exists>v. 0 \<le> v \<and> v < 1 \<and>
              new = fadd fl (fmul fl (fsub fl fhighest flowest) (of_sample fl v)) flowest)
           (\<lambda>h h'. h' = h) prob af sf
           (UniformFloat_process_population fl prob flowest fhighest [af] sf) \<and>
         originals_unchanged sf
           (snd (NormalDist_process_population fl prob mu sigma alpha [af] sf)) \<and>
         ((case alpha of
             None \<Rightarrow> \<not> fnegative fl sigma
           | Some al \<Rightarrow> \<not> fis_zero fl al \<and> hidden_genes (heap sf ! af) \<noteq> [] \<and>
                \<not> fnegative fl (hidden_genes (heap sf ! af) ! 0)) \<longrightarrow>
            returns_mutated_copy
              (\<lambda>old new. \<exists>z. new = fadd fl old
                 (fnormal fl mu (step_size_used sigma alpha (hidden_genes (heap sf ! af))) z))
              (\<lambda>h h'. case alpha of None \<Rightarrow> h' = h
                 | Some al \<Rightarrow> \<exists>f. (f = al \<or> f = fdiv fl (fone fl) al) \<and>
                     h' = h[0 := fmul fl (h ! 0) f])
              prob af sf (NormalDist_process_population fl prob mu sigma alpha [af] sf)) \<and>
         (\<not> isl (fst (NormalDist_process_population fl prob mu sigma alpha [af] sf)) \<longrightarrow>
            returns_mutated_copy
              (\<lambda>old new. \<exists>z. new = fadd fl old
                 (fnormal fl mu (step_size_used sigma alpha (hidden_genes (heap sf ! af))) z))
              (\<lambda>h h'. case alpha of None \<Rightarrow> h' = h
                 | Some al \<Rightarrow> \<exists>f. (f = al \<or> f = fdiv fl (fone fl) al) \<and>
                     h' = h[0 := fmul fl (h ! 0) f])
              prob af sf (NormalDist_process_population fl prob mu sigma alpha [af] sf))"
proof -
  have ui: "\<not> isl (fst (UniformInt_process_population prob lowest highest [ai] si))"
    if "int64_min \<le> lowest \<and> lowest \<le> highest \<and> highest \<le> int64_max"
    using UniformInt_returns [OF assms(2), of lowest highest prob] that by auto
  have nd: "\<not> isl (fst (NormalDist_process_population fl prob mu sigma alpha [af] sf))"
    if "case alpha of
             None \<Rightarrow> \<not> fnegative fl sigma
           | Some al \<Rightarrow> \<not> fis_zero fl al \<and> hidden_genes (heap sf ! af) \<noteq> [] \<and>
                \<not> fnegative fl (hidden_genes (heap sf ! af) ! 0)"
    using NormalDist_returns [OF assms(3) that, of prob mu] by auto
  note bf = BitFlip_copy [OF assms(1), where prob = prob]
  note uf = UniformInt_frame [OF assms(2), where prob = prob and lowest = lowest and
    highest = highest]
  note uc = UniformInt_copy [OF assms(2), where prob = prob and lowest = lowest and
    highest = highest]
  note ff = UniformFloat_copy [OF assms(3), where fl = fl and prob = prob and
    lowest = flowest and highest = fhighest]
  note nf = NormalDist_frame [OF assms(3), where fl = fl and prob = prob and mu = mu and
    sigma = sigma and alpha = alpha]
  note nc = NormalDist_copy [OF assms(3), where fl = fl and prob = prob and mu = mu and
    sigma = sigma and alpha = alpha]
  show ?thesis
  proof (intro conjI impI)
    show "originals_unchanged sb (snd (BitFlip_process_population prob [ab] sb))"
      by (rule bf [THEN conjunct1])
    show "returns_mutated_copy (\<lambda>old new. new = (\<not> old)) (\<lambda>h h'. h' = h) prob ab sb
           (BitFlip_process_population prob [ab] sb)"
      by (rule bf [THEN conjunct2])
    show "originals_unchanged si
           (snd (UniformInt_process_population prob lowest highest [ai] si))"
      by (rule uf)
    show "returns_mutated_copy (\<lambda>old new. lowest \<le> new \<and> new \<le> highest) (\<lambda>h h'. h' = h)
            prob ai si (UniformInt_process_population prob lowest highest [ai] si)"
      if "int64_min \<le> lowest \<and> lowest \<le> highest \<and> highest \<le> int64_max"
      by (rule uc [OF ui [OF that]])
    show "returns_mutated_copy (\<lambda>old new. lowest \<le> new \<and> new \<le> highest) (\<lambda>h h'. h' = h)
            prob ai si (UniformInt_process_population prob lowest highest [ai] si)"
      if "\<not> isl (fst (UniformInt_process_population prob lowest highest [ai] si))"
      by (rule uc [OF that])
    show "originals_unchanged sf
           (snd (UniformFloat_process_population fl prob flowest fhighest [af] sf))"
      by (rule ff [THEN conjunct1])
    show "returns_mutated_copy
           (\<lambda>old new. \<exists>v. 0 \<le> v \<and> v < 1 \<and>
              new = fadd fl (fmul fl (fsub fl fhighest flowest) (of_sample fl v)) flowest)
           (\<lambda>h h'. h' = h) prob af sf
           (UniformFloat_process_population fl prob flowest fhighest [af] sf)"
      by (rule ff [THEN conjunct2])
    show "originals_unchanged sf
           (snd (NormalDist_process_population fl prob mu sigma alpha [af] sf))"
      by (rule nf)
    show "returns_mutated_copy
              (\<lambda>old new. \<exists>z. new = fadd fl old
                 (fnormal fl mu (step_size_used sigma alpha (hidden_genes (heap sf ! af))) z))
              (\<lambda>h h'. case alpha of None \<Rightarrow> h' = h
                 | Some al \<Rightarrow> \<exists>f. (f = al \<or> f = fdiv fl (fone fl) al) \<and>
                     h' = h[0 := fmul fl (h ! 0) f])
              prob af sf (NormalDist_process_population fl prob mu sigma alpha [af] sf)"
      if "case alpha of
             None \<Rightarrow> \<not> fnegative fl sigma
           | Some al \<Rightarrow> \<not> fis_zero fl al \<and> hidden_genes (heap sf ! af) \<noteq> [] \<and>
                \<not> fnegative fl (hidden_genes (heap sf ! af) ! 0)"
      by (rule nc [OF nd [OF that]])
    show "returns_mutated_copy
              (\<lambda>old new. \<exists>z. new = fadd fl old
                 (fnormal fl mu (step_size_used sigma alpha (hidden_genes (heap sf ! af))) z))
              (\<lambda>h h'. case alpha of None \<Rightarrow> h' = h
                 | Some al \<Rightarrow> \<exists>f. (f = al \<or> f = fdiv fl (fone fl) al) \<and>
                     h' = h[0 := fmul fl (h ! 0) f])
              prob af sf (NormalDist_process_population fl prob mu sigma alpha [af] sf)"
      if "\<not> isl (fst (NormalDist_process_population fl prob mu sigma alpha [af] sf))"
      by (rule nc [OF that])
  qed
qed

theorem mutation_copy_on_write_witness:
  "0 < length (heap example_bits) \<and> 0 < length (heap example_ints) \<and>
   0 < length (heap example_reals) \<and>
   int64_min \<le> 0 \<and> (0::int) \<le> 5 \<and> 5 \<le> int64_max \<and>
   \<not> fis_zero exact_ops (2::real) \<and> hidden_genes (heap example_reals ! 0) \<noteq> [] \<and>
   \<not> fnegative exact_ops (hidden_genes (heap example_reals ! 0) ! 0) \<and>
   originals_unchanged example_bits
     (snd (BitFlip_process_population (- 1) [0] example_bits)) \<and>
   fst (BitFlip_process_population (- 1) [0] example_bits) = Inr [1] \<and>
   heap (snd (BitFlip_process_population (- 1) [0] example_bits)) ! 1 = heap example_bits ! 0 \<and>
   heap example_bits ! 0 = \<lparr>genes = [True], hidden_genes = []\<rparr> \<and>
   originals_unchanged example_ints
     (snd (UniformInt_process_population (1 / 2) 0 5 [0] example_ints)) \<and>
   \<not> isl (fst (UniformInt_process_population (1 / 2) 0 5 [0] example_ints)) \<and>
   genes (heap (snd (UniformInt_process_population (1 / 2) 0 5 [0] example_ints)) ! 1) ! 1 =
     genes (heap example_ints ! 0) ! 1 \<and>
   genes (heap example_ints ! 0) ! 1 = 8 \<and>
   genes (heap (snd (UniformInt_process_population (1 / 2) 0 5 [0] example_ints)) ! 1) ! 0 \<le> 5 \<and>
   \<not> genes (heap example_ints ! 0) ! 0 \<le> 5 \<and>
   originals_unchanged example_reals
     (snd (UniformFloat_process_population exact_ops (- 1) (- 1) 1 [0] example_reals)) \<and>
   heap (snd (UniformFloat_process_population exact_ops (- 1) (- 1) 1 [0] example_reals)) ! 1 =
     heap example_reals ! 0 \<and>
   heap example_reals ! 0 = \<lparr>genes = [5], hidden_genes = [3]\<rparr> \<and>
   originals_unchanged example_reals
     (snd (NormalDist_process_population exact_ops (- 1) 0 1 (Some 2) [0] example_reals)) \<and>
   \<not> isl (fst (NormalDist_process_population exact_ops (- 1) 0 1 (Some 2) [0] example_reals)) \<and>
   genes (heap (snd (NormalDist_process_population exact_ops (- 1) 0 1 (Some 2) [0]
     example_reals)) ! 1) = [5]"
proof -
  have b: "0 < length (heap example_bits)" by (simp add: example_bits_def fresh_world_def)
  have i: "0 < length (heap example_ints)" by (simp add: example_ints_def fresh_world_def)
  have f: "0 < length (heap example_reals)" by (simp add: example_reals_def fresh_world_def)
  have vb: "heap example_bits ! 0 = \<lparr>genes = [True], hidden_genes = []\<rparr>"
    "length (heap example_bits) = 1" "\<not> frac (rng example_bits 0) \<le> - 1"
    by (simp_all add: example_bits_def fresh_world_def)
  have vi: "genes (heap example_ints ! 0) = [7, 8]" "length (heap example_ints) = 1"
    "\<not> frac (rng example_ints 1) \<le> 1 / 2" "frac (rng example_ints 0) \<le> 1 / 2"
    by (simp_all add: example_ints_def fresh_world_def frac_def)
  have vf: "heap example_reals ! 0 = \<lparr>genes = [5], hidden_genes = [3]\<rparr>"
    "length (heap example_reals) = 1" "\<not> frac (rng example_reals 0) \<le> - 1"
    by (simp_all add: example_reals_def fresh_world_def)
  have ok: "int64_min \<le> 0 \<and> (0::int) \<le> 5 \<and> 5 \<le> int64_max"
    by (simp add: int64_min_def int64_max_def)
  have al: "\<not> fis_zero exact_ops (2::real) \<and> hidden_genes (heap example_reals ! 0) \<noteq> [] \<and>
            \<not> fnegative exact_ops (hidden_genes (heap example_reals ! 0) ! 0)"
    by (simp add: vf exact_ops_simps)
  then have al': "case Some (2::real) of
             None \<Rightarrow> \<not> fnegative exact_ops (1::real)
           | Some al \<Rightarrow> \<not> fis_zero exact_ops al \<and> hidden_genes (heap example_reals ! 0) \<noteq> [] \<and>
                \<not> fnegative exact_ops (hidden_genes (heap example_reals ! 0) ! 0)"
    by simp
  note inst = mutation_copy_on_write [OF b i f, where fl = exact_ops and lowest = 0 and
    highest = 5 and flowest = "- 1" and fhighest = 1 and mu = 0 and sigma = 1 and
    alpha = "Some 2"]
  note m1 = inst [where prob = "- 1"]
  note m2 = inst [where prob = "1 / 2"]
  from m1 have fb: "originals_unchanged example_bits
       (snd (BitFlip_process_population (- 1) [0] example_bits))"
    and cb: "returns_mutated_copy (\<lambda>old new. new = (\<not> old)) (\<lambda>h h'. h' = h) (- 1) 0
       example_bits (BitFlip_process_population (- 1) [0] example_bits)"
    by blast+
  from cb vb have rb: "fst (BitFlip_process_population (- 1) [0] example_bits) = Inr [1]"
    and gb: "genes (heap (snd (BitFlip_process_population (- 1) [0] example_bits)) ! 1) =
               [True]"
    and hb: "hidden_genes (heap (snd (BitFlip_process_population (- 1) [0] example_bits)) ! 1) =
               []"
    by (auto simp add: returns_mutated_copy_def length_Suc_conv)
  from gb hb vb
  have eb: "heap (snd (BitFlip_process_population (- 1) [0] example_bits)) ! 1 =
              heap example_bits ! 0"
    by simp
  from m2 ok have fi: "originals_unchanged example_ints
       (snd (UniformInt_process_population (1 / 2) 0 5 [0] example_ints))"
    and ci: "returns_mutated_copy (\<lambda>old new. 0 \<le> new \<and> new \<le> 5) (\<lambda>h h'. h' = h) (1 / 2) 0
       example_ints (UniformInt_process_population (1 / 2) 0 5 [0] example_ints)"
    by blast+
  from ci vi
  have ri: "\<not> isl (fst (UniformInt_process_population (1 / 2) 0 5 [0] example_ints))"
    and gi: "genes (heap (snd (UniformInt_process_population (1 / 2) 0 5 [0] example_ints)) ! 1)
               ! 1 = genes (heap example_ints ! 0) ! 1"
    and si: "genes (heap (snd (UniformInt_process_population (1 / 2) 0 5 [0] example_ints)) ! 1)
               ! 0 \<le> 5"
    by (auto simp add: returns_mutated_copy_def)
  from m1 have ff: "originals_unchanged example_reals
       (snd (UniformFloat_process_population exact_ops (- 1) (- 1) 1 [0] example_reals))"
    and cf: "returns_mutated_copy
       (\<lambda>old new. \<exists>v. 0 \<le> v \<and> v < 1 \<and> new =
          fadd exact_ops (fmul exact_ops (fsub exact_ops 1 (- 1)) (of_sample exact_ops v)) (- 1))
       (\<lambda>h h'. h' = h) (- 1) 0 example_reals
       (UniformFloat_process_population exact_ops (- 1) (- 1) 1 [0] example_reals)"
    by blast+
  from cf vf
  have gf: "genes (heap (snd (UniformFloat_process_population exact_ops (- 1) (- 1) 1 [0]
       example_reals)) ! 1) = [5]"
    and hf: "hidden_genes (heap (snd (UniformFloat_process_population exact_ops (- 1) (- 1) 1 [0]
       example_reals)) ! 1) = [3]"
    by (auto simp add: returns_mutated_copy_def length_Suc_conv)
  from gf hf vf
  have ef: "heap (snd (UniformFloat_process_population exact_ops (- 1) (- 1) 1 [0]
       example_reals)) ! 1 = heap example_reals ! 0"
    by simp
  from m1 al' have fn: "originals_unchanged example_reals
       (snd (NormalDist_process_population exact_ops (- 1) 0 1 (Some 2) [0] example_reals))"
    and cn: "returns_mutated_copy
       (\<lambda>old new. \<exists>z. new = fadd exact_ops old
          (fnormal exact_ops 0
             (step_size_used 1 (Some 2) (hidden_genes (heap example_reals ! 0))) z))
       (\<lambda>h h'. case Some (2::real) of None \<Rightarrow> h' = h
          | Some al \<Rightarrow> \<exists>f. (f = al \<or> f = fdiv exact_ops (fone exact_ops) al) \<and>
              h' = h[0 := fmul exact_ops (h ! 0) f])
       (- 1) 0 example_reals
       (NormalDist_process_population exact_ops (- 1) 0 1 (Some 2) [0] example_reals)"
    by blast+
  from cn vf
  have rn: "\<not> isl (fst (NormalDist_process_population exact_ops (- 1) 0 1 (Some 2) [0]
       example_reals))"
    and gn: "genes (heap (snd (NormalDist_process_population exact_ops (- 1) 0 1 (Some 2) [0]
       example_reals)) ! 1) = [5]"
    by (auto simp add: returns_mutated_copy_def length_Suc_conv)
  from b i f ok al fb rb eb vb fi ri gi si vi ff ef vf fn rn gn show ?thesis by simp
qed


end
